(* ===== verification/Prelude.thy ===== *)
theory Prelude
  imports Main "HOL-Library.Word"
begin

text \<open>
  What every component of the development shares: the machine types the Rust code uses, the
  \<open>Result\<close> and \<open>Poll\<close> types, the model of \<open>std::io::Error\<close>, the pieces of the Rust
  standard library the sources call (slices, \<open>checked_add\<close>, \<open>saturating_add\<close>, decimal
  \<open>Display\<close>, \<open>str::from_utf8\<close>, \<open>str::split\<close>, \<open>strip_prefix\<close>) and the generic
  lemmas about them.

  A \<open>&str\<close> is a \<^typ>\<open>string\<close> holding its UTF-8 bytes, one \<^typ>\<open>char\<close> per byte; a byte
  buffer is a list of \<open>8 word\<close>. \<open>as_bytes\<close> and \<open>from_utf8\<close> convert between the two, as
  in Rust.
\<close>

unbundle bit_operations_syntax

named_theorems wire_simps \<open>evaluation of the wire format\<close>
named_theorems poll_intros \<open>introduction rules for well-formed poll states\<close>

section \<open>Machine types\<close>

type_synonym byte = "8 word"
type_synonym bytes = "byte list"
type_synonym u16 = "16 word"
type_synonym u32 = "32 word"
type_synonym u64 = "64 word"

section \<open>Results and polls\<close>

text \<open>\<open>Result<T, E>\<close> is a sum with the error on the left, \<open>Poll<T>\<close> a datatype.\<close>

abbreviation Ok :: "'a \<Rightarrow> 'e + 'a" where
  "Ok \<equiv> Inr"

abbreviation Err :: "'e \<Rightarrow> 'e + 'a" where
  "Err \<equiv> Inl"

fun map_err :: "('e \<Rightarrow> 'f) \<Rightarrow> 'e + 'a \<Rightarrow> 'f + 'a" where
  "map_err f (Inl e) = Inl (f e)"
| "map_err f (Inr x) = Inr x"

fun bind_result :: "'e + 'a \<Rightarrow> ('a \<Rightarrow> 'e + 'b) \<Rightarrow> 'e + 'b" where
  "bind_result (Inl e) k = Inl e"
| "bind_result (Inr x) k = k x"

fun ok_or :: "'e \<Rightarrow> 'a option \<Rightarrow> 'e + 'a" where
  "ok_or e None = Inl e"
| "ok_or e (Some x) = Inr x"

lemma map_err_eq [simp]:
  "map_err f r = Inr x \<longleftrightarrow> r = Inr x" "Inr x = map_err f r \<longleftrightarrow> r = Inr x"
  "map_err f r = Inl e \<longleftrightarrow> (\<exists>e'. r = Inl e' \<and> e = f e')"
  by (cases r; auto)+

lemma bind_result_eq [simp]:
  "bind_result r k = Inr y \<longleftrightarrow> (\<exists>x. r = Inr x \<and> k x = Inr y)"
  "Inr y = bind_result r k \<longleftrightarrow> (\<exists>x. r = Inr x \<and> k x = Inr y)"
  by (cases r; auto)+

lemma ok_or_eq [simp]:
  "ok_or e r = Inr x \<longleftrightarrow> r = Some x" "Inr x = ok_or e r \<longleftrightarrow> r = Some x"
  by (cases r; auto)+

datatype 'a poll = Pending | Ready 'a

text \<open>What a read may answer.\<close>

lemma read_answer_cases [case_names pending err eof got]:
  obtains "a = Pending" | e where "a = Ready (Err e)" | "a = Ready (Ok [])"
  | got where "a = Ready (Ok got)" "got \<noteq> []"
  by (metis poll.exhaust sum.exhaust)

section \<open>I/O errors\<close>

text \<open>
  \<open>std::io::Error\<close>: a kind and the payload's message. \<open>OtherKind\<close> stands for every kind
  the sources neither build nor test.
\<close>

datatype error_kind = WriteZero | InvalidData | OtherKind

datatype io_error = IoError (io_kind: error_kind) (io_message: string)

section \<open>Strings and bytes\<close>

definition as_bytes :: "string \<Rightarrow> bytes" where
  "as_bytes s = map (\<lambda>c. of_char c) s"

definition str_of_bytes :: "bytes \<Rightarrow> string" where
  "str_of_bytes bs = map (\<lambda>b. char_of (unat b)) bs"

lemma unat_of_char [simp]: "unat (of_char c :: byte) = of_char c"
proof -
  have "(of_char c :: byte) = of_nat (of_char c)"
    by (rule of_nat_of_char [symmetric])
  moreover have "(of_char c :: nat) < 2 ^ LENGTH(8)"
    by simp
  ultimately show ?thesis
    by (simp add: unat_of_nat)
qed

lemma str_of_as_bytes [simp]: "str_of_bytes (as_bytes s) = s"
  by (simp add: str_of_bytes_def as_bytes_def comp_def)

lemma str_of_bytes_append [simp]: "str_of_bytes (bs @ bs') = str_of_bytes bs @ str_of_bytes bs'"
  by (simp add: str_of_bytes_def)

lemma as_bytes_simps [simp]:
  "as_bytes [] = []"
  "as_bytes (c # s) = of_char c # as_bytes s"
  "as_bytes (s @ t) = as_bytes s @ as_bytes t"
  by (simp_all add: as_bytes_def)

lemma length_as_bytes [simp]: "length (as_bytes s) = length s"
  by (simp add: as_bytes_def)

lemma as_bytes_eq_iff [simp]: "as_bytes s = as_bytes t \<longleftrightarrow> s = t"
  by (metis str_of_as_bytes)

section \<open>Decimal display\<close>

text \<open>\<open>Display\<close> of an unsigned integer: its decimal digits, no leading zero.\<close>

definition digit_char :: "nat \<Rightarrow> char" where
  "digit_char d = char_of (48 + d)"

fun show_nat :: "nat \<Rightarrow> string" where
  "show_nat n = (if n < 10 then [digit_char n] else show_nat (n div 10) @ [digit_char (n mod 10)])"

declare show_nat.simps [simp del]

section \<open>UTF-8 validation\<close>

text \<open>
  \<open>core::str::from_utf8\<close>. The error carries \<open>valid_up_to\<close> and \<open>error_len\<close>
  (\<open>None\<close> when the input ends in the middle of a sequence), as the standard library's
  validation loop computes them. \<open>cont b\<close> is the loop's test \<open>b as i8 < -64\<close>.
\<close>

datatype utf8_error = Utf8Error (valid_up_to: nat) (error_len: "nat option")

definition cont :: "byte \<Rightarrow> bool" where
  "cont b \<longleftrightarrow> 128 \<le> unat b \<and> unat b \<le> 191"

definition utf8_second3 :: "byte \<Rightarrow> byte \<Rightarrow> bool" where
  "utf8_second3 a b \<longleftrightarrow>
     (unat a = 224 \<and> 160 \<le> unat b \<and> unat b \<le> 191) \<or>
     (225 \<le> unat a \<and> unat a \<le> 236 \<and> cont b) \<or>
     (unat a = 237 \<and> 128 \<le> unat b \<and> unat b \<le> 159) \<or>
     (238 \<le> unat a \<and> unat a \<le> 239 \<and> cont b)"

definition utf8_second4 :: "byte \<Rightarrow> byte \<Rightarrow> bool" where
  "utf8_second4 a b \<longleftrightarrow>
     (unat a = 240 \<and> 144 \<le> unat b \<and> unat b \<le> 191) \<or>
     (241 \<le> unat a \<and> unat a \<le> 243 \<and> cont b) \<or>
     (unat a = 244 \<and> 128 \<le> unat b \<and> unat b \<le> 143)"

definition utf8_width :: "byte \<Rightarrow> nat" where
  "utf8_width a =
     (if unat a < 128 then 1
      else if 194 \<le> unat a \<and> unat a \<le> 223 then 2
      else if 224 \<le> unat a \<and> unat a \<le> 239 then 3
      else if 240 \<le> unat a \<and> unat a \<le> 244 then 4 else 0)"

text \<open>One character: \<open>Inr\<close> the bytes after it, \<open>Inl\<close> the \<open>error_len\<close>.\<close>

definition utf8_char :: "byte \<Rightarrow> bytes \<Rightarrow> nat option + bytes" where
  "utf8_char a bs =
     (if utf8_width a = 1 then Inr bs
      else if utf8_width a = 2 then
        (case bs of [] \<Rightarrow> Inl None
         | b # r \<Rightarrow> if cont b then Inr r else Inl (Some 1))
      else if utf8_width a = 3 then
        (case bs of [] \<Rightarrow> Inl None
         | b # r \<Rightarrow> if \<not> utf8_second3 a b then Inl (Some 1) else
           (case r of [] \<Rightarrow> Inl None
            | c # r' \<Rightarrow> if cont c then Inr r' else Inl (Some 2)))
      else if utf8_width a = 4 then
        (case bs of [] \<Rightarrow> Inl None
         | b # r \<Rightarrow> if \<not> utf8_second4 a b then Inl (Some 1) else
           (case r of [] \<Rightarrow> Inl None
            | c # r' \<Rightarrow> if \<not> cont c then Inl (Some 2) else
              (case r' of [] \<Rightarrow> Inl None
               | d # r'' \<Rightarrow> if cont d then Inr r'' else Inl (Some 3))))
      else Inl (Some 1))"

lemma utf8_char_shorter: "utf8_char a bs = Inr r \<Longrightarrow> length r \<le> length bs"
  by (auto simp: utf8_char_def split: if_splits list.splits)

function utf8_check :: "nat \<Rightarrow> bytes \<Rightarrow> utf8_error option" where
  "utf8_check i [] = None"
| "utf8_check i (a # bs) =
     (case utf8_char a bs of
        Inl l \<Rightarrow> Some (Utf8Error i l)
      | Inr r \<Rightarrow> utf8_check (i + (length (a # bs) - length r)) r)"
  by pat_completeness auto
termination
  by (relation "measure (\<lambda>(i, bs). length bs)") (auto dest: utf8_char_shorter)

definition from_utf8 :: "bytes \<Rightarrow> utf8_error + string" where
  "from_utf8 bs = (case utf8_check 0 bs of None \<Rightarrow> Inr (str_of_bytes bs) | Some e \<Rightarrow> Inl e)"

text \<open>\<open>Display\<close> of \<open>core::str::Utf8Error\<close>.\<close>

definition utf8_error_fmt :: "utf8_error \<Rightarrow> string" where
  "utf8_error_fmt e =
     (case error_len e of
        Some l \<Rightarrow> ''invalid utf-8 sequence of '' @ show_nat l @ '' bytes from index '' @
                  show_nat (valid_up_to e)
      | None \<Rightarrow> ''incomplete utf-8 byte sequence from index '' @ show_nat (valid_up_to e))"

definition utf8_valid :: "bytes \<Rightarrow> bool" where
  "utf8_valid bs \<longleftrightarrow> utf8_check 0 bs = None"

lemma from_utf8_valid [simp]: "utf8_valid (as_bytes s) \<Longrightarrow> from_utf8 (as_bytes s) = Ok s"
  by (simp add: from_utf8_def utf8_valid_def)

lemma utf8_check_ascii: "(\<And>b. b \<in> set bs \<Longrightarrow> unat b < 128) \<Longrightarrow> utf8_check i bs = None"
  by (induction bs arbitrary: i) (auto simp: utf8_char_def utf8_width_def)

lemma utf8_valid_ascii: "(\<And>b. b \<in> set bs \<Longrightarrow> unat b < 128) \<Longrightarrow> utf8_valid bs"
  by (simp add: utf8_valid_def utf8_check_ascii)

end
