(* ===== verification/Async_Io.thy ===== *)
theory Async_Io
  imports Prelude
begin

text \<open>
  The \<open>AsyncRead\<close> and \<open>AsyncWrite\<close> traits, which the sources only use from the
  \<open>futures\<close> crate, as interfaces: a locale per trait with the laws of its documentation,
  and scripted endpoints that realise every behaviour the traits allow (any splitting into
  chunks, any number of \<open>Pending\<close> answers, errors, end of file). The poll state machines of
  the program take the endpoint's operations as arguments and their lemmas are proved once,
  inside the locales.
\<close>

section \<open>The interfaces\<close>

text \<open>
  \<open>poll_write(buf)\<close> accepts a prefix of the buffer and answers its length; a pending or a
  failed call accepts nothing. \<open>accepted\<close> is what the endpoint took so far.
\<close>

type_synonym 'w poll_write_fn = "bytes \<Rightarrow> 'w \<Rightarrow> (io_error + nat) poll \<times> 'w"
type_synonym 'w poll_sync_fn = "'w \<Rightarrow> (io_error + unit) poll \<times> 'w"
type_synonym 'r poll_read_fn = "nat \<Rightarrow> 'r \<Rightarrow> (io_error + bytes) poll \<times> 'r"

locale async_write =
  fixes poll_write :: "'w poll_write_fn"
    and poll_flush :: "'w poll_sync_fn"
    and poll_close :: "'w poll_sync_fn"
    and accepted :: "'w \<Rightarrow> bytes"
  assumes write_ok:
      "poll_write buf w = (Ready (Ok n), w') \<Longrightarrow>
         n \<le> length buf \<and> accepted w' = accepted w @ take n buf"
    and write_err: "poll_write buf w = (Ready (Err e), w') \<Longrightarrow> accepted w' = accepted w"
    and write_pending: "poll_write buf w = (Pending, w') \<Longrightarrow> accepted w' = accepted w"
    and flush_accepted: "accepted (snd (poll_flush w)) = accepted w"
    and close_accepted: "accepted (snd (poll_close w)) = accepted w"

text \<open>
  \<open>poll_read\<close> into a buffer of \<open>n\<close> bytes delivers at most \<open>n\<close> bytes of what is left to
  read (\<open>stream\<close>); no bytes into a non-empty buffer means end of file.
\<close>

locale async_read =
  fixes poll_read :: "'r poll_read_fn"
    and stream :: "'r \<Rightarrow> bytes"
  assumes read_ok:
      "poll_read n r = (Ready (Ok bs), r') \<Longrightarrow> length bs \<le> n \<and> stream r = bs @ stream r'"
    and read_eof: "poll_read n r = (Ready (Ok []), r') \<Longrightarrow> 0 < n \<Longrightarrow> stream r = []"
    and read_err: "poll_read n r = (Ready (Err e), r') \<Longrightarrow> stream r' = stream r"
    and read_pending: "poll_read n r = (Pending, r') \<Longrightarrow> stream r' = stream r"

text \<open>
  Progress: \<open>weight\<close> pays for every byte delivered and for every pending answer, unless the
  endpoint is \<open>idle\<close>, pending with nothing to come. An endpoint whose other side has been
  closed without a failure is \<open>live\<close>: it is never idle and delivers the whole stream.
\<close>

locale async_read_live = async_read +
  fixes weight :: "'r \<Rightarrow> nat"
    and idle :: "'r \<Rightarrow> bool"
    and live :: "'r \<Rightarrow> bool"
  assumes weight_ok: "poll_read n r = (Ready (Ok bs), r') \<Longrightarrow> weight r' + length bs \<le> weight r"
    and weight_le: "poll_read n r = (a, r') \<Longrightarrow> weight r' \<le> weight r"
    and pending_progress: "poll_read n r = (Pending, r') \<Longrightarrow> weight r' < weight r \<or> idle r'"
    and live_not_idle: "live r \<Longrightarrow> \<not> idle r"
    and live_no_err: "live r \<Longrightarrow> poll_read n r \<noteq> (Ready (Err e), r')"
    and live_kept: "live r \<Longrightarrow> poll_read n r = (a, r') \<Longrightarrow> live r'"
begin

lemma weight_pending: "live r \<Longrightarrow> poll_read n r = (Pending, r') \<Longrightarrow> weight r' < weight r"
  using pending_progress live_kept live_not_idle by blast

end

text \<open>
  An endpoint that will fail: \<open>fails e b r\<close> says that reads deliver the bytes \<open>b\<close> and then the
  error \<open>e\<close>. Until then it is never idle.
\<close>

locale async_read_failing = async_read_live +
  fixes fails :: "io_error \<Rightarrow> bytes \<Rightarrow> 'r \<Rightarrow> bool"
  assumes fails_ok: "fails e b r \<Longrightarrow> poll_read n r = (Ready (Ok bs), r') \<Longrightarrow> \<exists>b'. b = bs @ b' \<and> fails e b' r'"
    and fails_nothing: "fails e b r \<Longrightarrow> poll_read n r = (Ready (Ok []), r') \<Longrightarrow> n = 0 \<and> b \<noteq> []"
    and fails_err: "fails e b r \<Longrightarrow> poll_read n r = (Ready (Err e'), r') \<Longrightarrow> e' = e \<and> b = []"
    and fails_pending: "fails e b r \<Longrightarrow> poll_read n r = (Pending, r') \<Longrightarrow> fails e b r' \<and> weight r' < weight r"

section \<open>Scripted writers\<close>

text \<open>
  A script says how the endpoint answers each \<open>poll_write\<close>: \<open>Accept k\<close> takes at most
  \<open>k\<close> bytes, \<open>WStall\<close> answers pending, \<open>WFail e\<close> fails. After the script every write is
  taken whole. \<open>w_sync\<close> scripts the answers of \<open>poll_flush\<close> and \<open>poll_close\<close>.
\<close>

datatype write_event = Accept nat | WStall | WFail io_error

record script_writer =
  w_script :: "write_event list"
  w_sync :: "(io_error + unit) poll list"
  w_accepted :: bytes
  w_closed :: bool

definition fresh_writer :: "write_event list \<Rightarrow> (io_error + unit) poll list \<Rightarrow> script_writer" where
  "fresh_writer ws ys = \<lparr>w_script = ws, w_sync = ys, w_accepted = [], w_closed = False\<rparr>"

fun sw_poll_write :: "script_writer poll_write_fn" where
  "sw_poll_write buf w =
     (case w_script w of
        [] \<Rightarrow> (Ready (Ok (length buf)), w\<lparr>w_accepted := w_accepted w @ buf\<rparr>)
      | Accept k # es \<Rightarrow>
          (Ready (Ok (min k (length buf))),
           w\<lparr>w_script := es, w_accepted := w_accepted w @ take k buf\<rparr>)
      | WStall # es \<Rightarrow> (Pending, w\<lparr>w_script := es\<rparr>)
      | WFail e # es \<Rightarrow> (Ready (Err e), w\<lparr>w_script := es\<rparr>))"

fun sw_poll_flush :: "script_writer poll_sync_fn" where
  "sw_poll_flush w =
     (case w_sync w of [] \<Rightarrow> (Ready (Ok ()), w) | a # as \<Rightarrow> (a, w\<lparr>w_sync := as\<rparr>))"

fun sw_poll_close :: "script_writer poll_sync_fn" where
  "sw_poll_close w =
     (case w_sync w of
        [] \<Rightarrow> (Ready (Ok ()), w\<lparr>w_closed := True\<rparr>)
      | a # as \<Rightarrow> (a, w\<lparr>w_sync := as, w_closed := (a = Ready (Ok ()))\<rparr>))"

interpretation sw: async_write sw_poll_write sw_poll_flush sw_poll_close w_accepted
  by unfold_locales
    (auto simp: min_def split: list.splits write_event.splits if_splits)

section \<open>Scripted readers\<close>

text \<open>
  \<open>Chunk bs\<close> makes bytes available, \<open>RStall\<close> answers one poll with pending, \<open>RFail e\<close> with
  an error. At the end of the script a closed endpoint is at end of file and an open one is
  pending for good. Bytes that do not fit the caller's buffer stay available, and reading into
  an empty buffer delivers nothing.
\<close>

datatype read_event = Chunk bytes | RStall | RFail io_error

record script_reader =
  r_script :: "read_event list"
  r_closed :: bool

fun events_bytes :: "read_event list \<Rightarrow> bytes" where
  "events_bytes [] = []"
| "events_bytes (Chunk bs # es) = bs @ events_bytes es"
| "events_bytes (e # es) = events_bytes es"

fun read_script :: "nat \<Rightarrow> bool \<Rightarrow> read_event list \<Rightarrow> (io_error + bytes) poll \<times> read_event list" where
  "read_script n closed [] = (if closed then Ready (Ok []) else Pending, [])"
| "read_script n closed (RStall # es) = (Pending, es)"
| "read_script n closed (RFail e # es) = (Ready (Err e), es)"
| "read_script n closed (Chunk bs # es) =
     (if bs = [] then read_script n closed es
      else (Ready (Ok (take n bs)), if length bs \<le> n then es else Chunk (drop n bs) # es))"

definition sr_poll_read :: "script_reader poll_read_fn" where
  "sr_poll_read n r =
     (let (a, es) = read_script n (r_closed r) (r_script r) in (a, r\<lparr>r_script := es\<rparr>))"

definition sr_stream :: "script_reader \<Rightarrow> bytes" where
  "sr_stream r = events_bytes (r_script r)"

lemma read_script_ok:
  "read_script n c es = (Ready (Ok bs), es') \<Longrightarrow>
     length bs \<le> n \<and> events_bytes es = bs @ events_bytes es'"
  by (induction n c es rule: read_script.induct) (auto split: if_splits)

lemma read_script_eof:
  "read_script n c es = (Ready (Ok []), es') \<Longrightarrow> 0 < n \<Longrightarrow> events_bytes es = []"
  by (induction n c es rule: read_script.induct) (auto split: if_splits)

lemma read_script_keeps:
  "read_script n c es = (Pending, es') \<Longrightarrow> events_bytes es' = events_bytes es"
  "read_script n c es = (Ready (Err e), es') \<Longrightarrow> events_bytes es' = events_bytes es"
  by (induction n c es rule: read_script.induct) (auto split: if_splits)

text \<open>The size of a script bounds the polls before the reader is at rest.\<close>

fun event_size :: "read_event \<Rightarrow> nat" where
  "event_size (Chunk bs) = Suc (length bs)"
| "event_size e = 1"

definition script_size :: "read_event list \<Rightarrow> nat" where
  "script_size es = sum_list (map event_size es)"

definition no_fail :: "read_event list \<Rightarrow> bool" where
  "no_fail es \<longleftrightarrow> (\<forall>e. RFail e \<notin> set es)"

lemma script_size_simps [simp]:
  "script_size [] = 0"
  "script_size (e # es) = event_size e + script_size es"
  by (simp_all add: script_size_def)

lemma no_fail_simps [simp]:
  "no_fail []"
  "no_fail (Chunk bs # es) \<longleftrightarrow> no_fail es"
  "no_fail (RStall # es) \<longleftrightarrow> no_fail es"
  "\<not> no_fail (RFail e # es)"
  by (auto simp: no_fail_def)

lemma read_script_weight:
  "read_script n c es = (Ready (Ok bs), es') \<Longrightarrow> script_size es' + length bs \<le> script_size es"
  by (induction n c es rule: read_script.induct) (auto split: if_splits)

lemma read_script_weight_le: "read_script n c es = (a, es') \<Longrightarrow> script_size es' \<le> script_size es"
  by (induction n c es rule: read_script.induct) (auto split: if_splits)

lemma read_script_pending:
  "read_script n c es = (Pending, es') \<Longrightarrow> script_size es' < script_size es \<or> es' = [] \<and> \<not> c"
  by (induction n c es rule: read_script.induct) (auto split: if_splits)

definition sr_weight :: "script_reader \<Rightarrow> nat" where
  "sr_weight r = script_size (r_script r)"

lemma read_script_no_fail:
  "no_fail es \<Longrightarrow> read_script n c es = (a, es') \<Longrightarrow> no_fail es' \<and> a \<noteq> Ready (Err e)"
  by (induction n c es rule: read_script.induct) (auto split: if_splits)

definition sr_live :: "script_reader \<Rightarrow> bool" where
  "sr_live r \<longleftrightarrow> r_closed r \<and> no_fail (r_script r)"

definition sr_idle :: "script_reader \<Rightarrow> bool" where
  "sr_idle r \<longleftrightarrow> r_script r = [] \<and> \<not> r_closed r"

interpretation sr: async_read_live sr_poll_read sr_stream sr_weight sr_idle sr_live
  by unfold_locales
    (auto simp: sr_poll_read_def sr_stream_def sr_weight_def sr_live_def sr_idle_def split: prod.splits
      dest: read_script_ok read_script_keeps read_script_eof read_script_weight
        read_script_weight_le read_script_pending read_script_no_fail)

text \<open>A script with a failure in it.\<close>

definition sr_fails :: "io_error \<Rightarrow> bytes \<Rightarrow> script_reader \<Rightarrow> bool" where
  "sr_fails e b r \<longleftrightarrow> (\<exists>pre post. r_script r = pre @ RFail e # post \<and> no_fail pre \<and> events_bytes pre = b)"

lemma script_size_append [simp]: "script_size (es @ es') = script_size es + script_size es'"
  by (simp add: script_size_def)

lemma read_script_fails:
  "no_fail pre \<Longrightarrow> read_script n c (pre @ RFail e # post) = (a, es) \<Longrightarrow>
     (case a of
        Ready (Inl e') \<Rightarrow> e' = e \<and> events_bytes pre = []
      | Ready (Inr bs) \<Rightarrow> (bs = [] \<longrightarrow> n = 0 \<and> events_bytes pre \<noteq> []) \<and>
          (\<exists>pre'. es = pre' @ RFail e # post \<and> no_fail pre' \<and> events_bytes pre = bs @ events_bytes pre')
      | Pending \<Rightarrow>
          (\<exists>pre'. es = pre' @ RFail e # post \<and> no_fail pre' \<and> events_bytes pre' = events_bytes pre \<and>
             script_size es < script_size (pre @ RFail e # post)))"
proof (induction pre)
  case (Cons ev pre)
  show ?case
  proof (cases ev)
    case (Chunk bs)
    show ?thesis
    proof (cases "bs = []")
      case True
      with Cons Chunk show ?thesis by (auto split: poll.splits sum.splits)
    next
      case False
      have "\<exists>pre'. es = pre' @ RFail e # post \<and> no_fail pre' \<and>
          events_bytes (ev # pre) = take n bs @ events_bytes pre'"
      proof (cases "length bs \<le> n")
        case True
        with Cons.prems Chunk False show ?thesis by (intro exI [of _ pre]) auto
      next
        case False
        with Cons.prems Chunk \<open>bs \<noteq> []\<close> show ?thesis by (intro exI [of _ "Chunk (drop n bs) # pre"]) auto
      qed
      with Cons.prems Chunk False show ?thesis by auto
    qed
  next
    case RStall
    with Cons.prems show ?thesis by auto
  qed (use Cons.prems in auto)
qed auto

interpretation srf: async_read_failing sr_poll_read sr_stream sr_weight sr_idle sr_live sr_fails
proof unfold_locales
  fix e e' b n bs and r r' :: script_reader
  assume "sr_fails e b r"
  then obtain pre post where r: "r_script r = pre @ RFail e # post" "no_fail pre" "events_bytes pre = b"
    by (auto simp: sr_fails_def)
  note answer = read_script_fails [OF r(2), of n "r_closed r" e post]
  show "sr_poll_read n r = (Ready (Ok bs), r') \<Longrightarrow> \<exists>b'. b = bs @ b' \<and> sr_fails e b' r'"
    using answer r by (fastforce simp: sr_poll_read_def sr_fails_def split: prod.splits)
  show "sr_poll_read n r = (Ready (Ok []), r') \<Longrightarrow> n = 0 \<and> b \<noteq> []"
    "sr_poll_read n r = (Ready (Err e'), r') \<Longrightarrow> e' = e \<and> b = []"
    using answer r by (fastforce simp: sr_poll_read_def split: prod.splits)+
  show "sr_poll_read n r = (Pending, r') \<Longrightarrow> sr_fails e b r' \<and> sr_weight r' < sr_weight r"
    using answer r by (fastforce simp: sr_poll_read_def sr_fails_def sr_weight_def split: prod.splits)
qed

end
