(* ===== verification/Transition.thy ===== *)
theory Transition
  imports Prelude
begin

text \<open>
  Labelled transition systems given by an executable step function, shared by the components
  that are state machines: runs over a list of labels, invariants of a system, and forward
  simulation of one system by another. Each is a locale whose obligations speak about single
  steps and whose lemmas speak about runs.
\<close>

section \<open>Runs\<close>

fun exec :: "('l \<Rightarrow> 's \<Rightarrow> 's option) \<Rightarrow> 'l list \<Rightarrow> 's \<Rightarrow> 's option" where
  "exec step [] s = Some s"
| "exec step (l # ls) s = (case step l s of None \<Rightarrow> None | Some t \<Rightarrow> exec step ls t)"

lemma exec_append:
  "exec step (ls @ ms) s = (case exec step ls s of None \<Rightarrow> None | Some t \<Rightarrow> exec step ms t)"
  by (induction ls arbitrary: s) (auto split: option.split)

lemma exec_snoc:
  "exec step (ls @ [l]) s = Some t \<longleftrightarrow> (\<exists>u. exec step ls s = Some u \<and> step l u = Some t)"
  by (auto simp: exec_append split: option.splits)

lemma exec_snoc_induct [consumes 1, case_names start step]:
  assumes "exec step ls s = Some t"
    and "P [] s"
    and "\<And>ls l u v. exec step ls s = Some u \<Longrightarrow> P ls u \<Longrightarrow> step l u = Some v \<Longrightarrow> P (ls @ [l]) v"
  shows "P ls t"
  using assms(1)
proof (induction ls arbitrary: t rule: rev_induct)
  case Nil
  with assms(2) show ?case by simp
next
  case (snoc l ls)
  then show ?case by (auto simp: exec_snoc intro: assms(3))
qed

section \<open>Invariants\<close>

locale step_invariant =
  fixes step :: "'l \<Rightarrow> 's \<Rightarrow> 's option"
    and inv :: "'s \<Rightarrow> bool"
  assumes step_inv: "inv s \<Longrightarrow> step l s = Some t \<Longrightarrow> inv t"
begin

lemma exec_inv: "exec step ls s = Some t \<Longrightarrow> inv s \<Longrightarrow> inv t"
  by (induction ls arbitrary: s) (auto split: option.splits intro: step_inv)

end

text \<open>
  A quantity that some labels use up and no label increases bounds how often those labels occur
  in a run.
\<close>

locale step_budget = step_invariant +
  fixes costs :: "'l \<Rightarrow> bool"
    and budget :: "'s \<Rightarrow> nat"
  assumes pays: "inv s \<Longrightarrow> step l s = Some t \<Longrightarrow> budget t + (if costs l then 1 else 0) = budget s"
begin

lemma exec_budget:
  "exec step ls s = Some t \<Longrightarrow> inv s \<Longrightarrow> budget t + length (filter costs ls) = budget s"
proof (induction ls arbitrary: s)
  case Nil
  then show ?case by simp
next
  case (Cons l ls)
  then obtain u where u: "step l s = Some u" "exec step ls u = Some t"
    by (auto split: option.splits)
  with Cons.IH [OF u(2) step_inv [OF Cons.prems(2) u(1)]] pays [OF Cons.prems(2) u(1)]
  show ?case by (auto split: if_splits)
qed

end

section \<open>Forward simulation\<close>

text \<open>
  \<open>labels l\<close> are the abstract labels that the concrete step \<open>l\<close> performs, none for a step
  the abstract system does not see.
\<close>

locale forward_simulation = step_invariant cstep inv
  for cstep :: "'l \<Rightarrow> 's \<Rightarrow> 's option" and inv :: "'s \<Rightarrow> bool" +
  fixes astep :: "'m \<Rightarrow> 'a \<Rightarrow> 'a option"
    and abs :: "'s \<Rightarrow> 'a"
    and labels :: "'l \<Rightarrow> 'm list"
  assumes simulates: "inv s \<Longrightarrow> cstep l s = Some t \<Longrightarrow> exec astep (labels l) (abs s) = Some (abs t)"
begin

lemma exec_simulates:
  "exec cstep ls s = Some t \<Longrightarrow> inv s \<Longrightarrow> exec astep (concat (map labels ls)) (abs s) = Some (abs t)"
proof (induction ls arbitrary: s)
  case Nil
  then show ?case by simp
next
  case (Cons l ls)
  then obtain u where u: "cstep l s = Some u" "exec cstep ls u = Some t"
    by (auto split: option.splits)
  with Cons.IH [OF u(2) step_inv [OF Cons.prems(2) u(1)]] simulates [OF Cons.prems(2) u(1)]
  show ?case by (simp add: exec_append)
qed

end

end
