(* ===== verification/Event_Loop.thy ===== *)
theory Event_Loop
  imports Protocol Transition
begin

text \<open>
  \<open>src/event_loop.rs\<close>, the loop of the daemon (\<open>run\<close>) and the task it spawns per connection
  (\<open>handle_io\<close>). The tasks and futures the loop owns are interleaved by the runtime and
  \<open>select!\<close> picks any ready branch, so a run is a sequence of labelled steps: which branch
  fired, and with which outcome.

  Futures that are in flight (\<open>store_closures\<close>, \<open>handle_store_paths\<close>) are represented by the
  store path they work on, and their results, which come from Nix and from the cache, by the
  label of the step that completes them. The hash of a store path (\<open>StorePath::hash\<close>) is a
  parameter.
\<close>

section \<open>Data\<close>

definition MAX_CONCURRENT_STORE_PATHS :: nat where
  "MAX_CONCURRENT_STORE_PATHS = 32"

record ('path, 'cerr, 'herr) action_report =
  num_bytes_pushed :: u64
  num_paths_pushed :: u32
  num_paths_skipped :: u32
  path_closure_errors :: "('path \<times> 'cerr) list"
  path_handling_errors :: "('path \<times> 'herr) list"

definition action_report_default :: "('path, 'cerr, 'herr) action_report" where
  "action_report_default = \<lparr>num_bytes_pushed = 0, num_paths_pushed = 0, num_paths_skipped = 0,
     path_closure_errors = [], path_handling_errors = []\<rparr>"

datatype ('path, 'wr) event = EventPushStorePath 'path | EventStop 'wr

type_synonym ('path, 'perr, 'wr) channel_message = "'perr receive_error + ('path, 'wr) event"

text \<open>The outcome of \<open>handle_store_path\<close>: an error, the bytes pushed, or a cached path.\<close>

type_synonym 'herr handle_result = "'herr + u64 option"

text \<open>The calls of the \<open>StopProgressReporter\<close>, in the order they are made.\<close>

datatype ('path, 'cerr, 'herr) report_call =
    ReportPathsLeftToHandle u32
  | ReportPathPushed 'path u64
  | ReportPathSkipped 'path
  | ReportPathHandlingError 'path 'herr
  | ReportFinalReport "('path, 'cerr, 'herr) action_report"

section \<open>The connection task\<close>

text \<open>
  \<open>handle_io\<close> owns the receiver of one connection. A turn is one iteration of its loop: it
  polls the receiver once and sends at most one message to the event loop's channel. The write
  half \<open>writer\<close> leaves the task with the stop event.
\<close>

datatype 'r io_task = IoRunning "'r receiver" | IoReturned | IoPanicked

definition handle_io_start :: "'r \<Rightarrow> 'r io_task" where
  "handle_io_start reader = IoRunning (Receiver_new reader)"

fun handle_io_turn ::
  "('path, 'perr) wire_env \<Rightarrow> 'r poll_read_fn \<Rightarrow> 'wr \<Rightarrow> 'r io_task \<Rightarrow>
     ('path, 'perr, 'wr) channel_message list \<times> 'r io_task" where
  "handle_io_turn E rd writer (IoRunning message_rx) =
     (case poll_next E rd message_rx of
        (None, rx) \<Rightarrow> ([], IoPanicked)
      | (Some Pending, rx) \<Rightarrow> ([], IoRunning rx)
      | (Some (Ready None), rx) \<Rightarrow> ([], IoReturned)
      | (Some (Ready (Some (Inr (PushStorePath store_path)))), rx) \<Rightarrow>
          ([Ok (EventPushStorePath store_path)], IoRunning rx)
      | (Some (Ready (Some (Inr StopDaemon))), rx) \<Rightarrow> ([Ok (EventStop writer)], IoReturned)
      | (Some (Ready (Some (Inl err))), rx) \<Rightarrow> ([Err err], IoRunning rx))"
| "handle_io_turn E rd writer t = ([], t)"

section \<open>The state of the loop\<close>

datatype phase = Looping | Draining | Finished

record ('path, 'hash, 'perr, 'cerr, 'herr, 'r, 'wr) loop_state =
  io_tasks :: "('r io_task \<times> 'wr) list"
  messages :: "('path, 'perr, 'wr) channel_message list"
  store_closures :: "'path list"
  handle_store_paths :: "'path list"
  pending_handle_store_paths :: "'path list"
  seen_store_hashes :: "'hash set"
  report :: "('path, 'cerr, 'herr) action_report"
  stop_progress_writer :: "'wr option"
  rx_errors :: "'perr receive_error list"
  phase :: phase
  reporter :: "('path, 'cerr, 'herr) report_call list"

definition loop_init :: "('path, 'hash, 'perr, 'cerr, 'herr, 'r, 'wr) loop_state" where
  "loop_init = \<lparr>io_tasks = [], messages = [], store_closures = [], handle_store_paths = [],
     pending_handle_store_paths = [], seen_store_hashes = {}, report = action_report_default,
     stop_progress_writer = None, rx_errors = [], phase = Looping, reporter = []\<rparr>"

section \<open>The branches of the loop\<close>

definition on_io :: "'r \<Rightarrow> 'wr \<Rightarrow>
    ('path, 'hash, 'perr, 'cerr, 'herr, 'r, 'wr) loop_state \<Rightarrow>
    ('path, 'hash, 'perr, 'cerr, 'herr, 'r, 'wr) loop_state" where
  "on_io reader writer s = s\<lparr>io_tasks := io_tasks s @ [(handle_io_start reader, writer)]\<rparr>"

fun on_message :: "('path, 'perr, 'wr) channel_message \<Rightarrow>
    ('path, 'hash, 'perr, 'cerr, 'herr, 'r, 'wr) loop_state \<Rightarrow>
    ('path, 'hash, 'perr, 'cerr, 'herr, 'r, 'wr) loop_state" where
  "on_message (Inr (EventPushStorePath store_path)) s =
     s\<lparr>store_closures := store_closures s @ [store_path]\<rparr>"
| "on_message (Inr (EventStop writer)) s = s\<lparr>stop_progress_writer := Some writer\<rparr>"
| "on_message (Inl rx_err) s = s\<lparr>rx_errors := rx_errors s @ [rx_err]\<rparr>"

text \<open>The body of the loop over a closure's paths.\<close>

definition admit_path :: "('path \<Rightarrow> 'hash) \<Rightarrow> 'path \<Rightarrow>
    ('path, 'hash, 'perr, 'cerr, 'herr, 'r, 'wr) loop_state \<Rightarrow>
    ('path, 'hash, 'perr, 'cerr, 'herr, 'r, 'wr) loop_state" where
  "admit_path hash path s =
     (if hash path \<in> seen_store_hashes s then s
      else
        let s1 = s\<lparr>seen_store_hashes := insert (hash path) (seen_store_hashes s)\<rparr> in
        if length (handle_store_paths s1) < MAX_CONCURRENT_STORE_PATHS
        then s1\<lparr>handle_store_paths := handle_store_paths s1 @ [path]\<rparr>
        else s1\<lparr>pending_handle_store_paths := pending_handle_store_paths s1 @ [path]\<rparr>)"

fun on_closure :: "('path \<Rightarrow> 'hash) \<Rightarrow> 'path \<Rightarrow> 'cerr + 'path list \<Rightarrow>
    ('path, 'hash, 'perr, 'cerr, 'herr, 'r, 'wr) loop_state \<Rightarrow>
    ('path, 'hash, 'perr, 'cerr, 'herr, 'r, 'wr) loop_state" where
  "on_closure hash p (Inr store_paths) s = fold (admit_path hash) store_paths s"
| "on_closure hash p (Inl err) s =
     s\<lparr>report := (report s)\<lparr>path_closure_errors := path_closure_errors (report s) @ [(p, err)]\<rparr>\<rparr>"

fun record_result :: "'path \<Rightarrow> 'herr handle_result \<Rightarrow>
    ('path, 'cerr, 'herr) action_report \<Rightarrow> ('path, 'cerr, 'herr) action_report" where
  "record_result path (Inr (Some num_bytes)) r =
     r\<lparr>num_bytes_pushed := num_bytes_pushed r + num_bytes,
       num_paths_pushed := num_paths_pushed r + 1\<rparr>"
| "record_result path (Inr None) r = r\<lparr>num_paths_skipped := num_paths_skipped r + 1\<rparr>"
| "record_result path (Inl err) r =
     r\<lparr>path_handling_errors := path_handling_errors r @ [(path, err)]\<rparr>"

definition start_pending ::
   "('path, 'hash, 'perr, 'cerr, 'herr, 'r, 'wr) loop_state \<Rightarrow>
    ('path, 'hash, 'perr, 'cerr, 'herr, 'r, 'wr) loop_state" where
  "start_pending s =
     (case pending_handle_store_paths s of
        [] \<Rightarrow> s
      | fut # rest \<Rightarrow> s\<lparr>pending_handle_store_paths := rest,
          handle_store_paths := handle_store_paths s @ [fut]\<rparr>)"

definition on_handled :: "'path \<Rightarrow> 'herr handle_result \<Rightarrow>
    ('path, 'hash, 'perr, 'cerr, 'herr, 'r, 'wr) loop_state \<Rightarrow>
    ('path, 'hash, 'perr, 'cerr, 'herr, 'r, 'wr) loop_state" where
  "on_handled path result s =
     start_pending (s\<lparr>handle_store_paths := remove1 path (handle_store_paths s),
                      report := record_result path result (report s)\<rparr>)"

section \<open>Draining\<close>

definition loop_breaks :: "('path, 'hash, 'perr, 'cerr, 'herr, 'r, 'wr) loop_state \<Rightarrow> bool" where
  "loop_breaks s \<longleftrightarrow> stop_progress_writer s \<noteq> None \<and> store_closures s = []"

definition on_break ::
   "('path, 'hash, 'perr, 'cerr, 'herr, 'r, 'wr) loop_state \<Rightarrow>
    ('path, 'hash, 'perr, 'cerr, 'herr, 'r, 'wr) loop_state" where
  "on_break s =
     s\<lparr>phase := Draining,
       reporter := [ReportPathsLeftToHandle
         (of_nat (length (handle_store_paths s) + length (pending_handle_store_paths s)))]\<rparr>"

fun report_result :: "'path \<Rightarrow> 'herr handle_result \<Rightarrow> ('path, 'cerr, 'herr) report_call" where
  "report_result path (Inr (Some num_bytes)) = ReportPathPushed path num_bytes"
| "report_result path (Inr None) = ReportPathSkipped path"
| "report_result path (Inl err) = ReportPathHandlingError path err"

definition on_drained :: "'path \<Rightarrow> 'herr handle_result \<Rightarrow>
    ('path, 'hash, 'perr, 'cerr, 'herr, 'r, 'wr) loop_state \<Rightarrow>
    ('path, 'hash, 'perr, 'cerr, 'herr, 'r, 'wr) loop_state" where
  "on_drained path result s =
     start_pending (s\<lparr>handle_store_paths := remove1 path (handle_store_paths s),
                      reporter := reporter s @ [report_result path result],
                      report := record_result path result (report s)\<rparr>)"

definition on_finish ::
   "('path, 'hash, 'perr, 'cerr, 'herr, 'r, 'wr) loop_state \<Rightarrow>
    ('path, 'hash, 'perr, 'cerr, 'herr, 'r, 'wr) loop_state" where
  "on_finish s = s\<lparr>phase := Finished, reporter := reporter s @ [ReportFinalReport (report s)]\<rparr>"

section \<open>Steps\<close>

datatype ('path, 'perr, 'cerr, 'herr, 'r, 'wr) label =
    Accepted 'r 'wr
  | IoTurn nat
  | Received "('path, 'perr, 'wr) channel_message"
  | ClosureDone 'path "'cerr + 'path list"
  | PathHandled 'path "'herr handle_result"
  | Break
  | Finish

text \<open>A turn of the \<open>i\<close>-th connection task, whose messages go to the end of the channel.\<close>

definition io_turn ::
   "('path, 'perr) wire_env \<Rightarrow> 'r poll_read_fn \<Rightarrow> nat \<Rightarrow>
    ('path, 'hash, 'perr, 'cerr, 'herr, 'r, 'wr) loop_state \<Rightarrow>
    ('path, 'hash, 'perr, 'cerr, 'herr, 'r, 'wr) loop_state" where
  "io_turn E rd i s =
     (let (t, w) = io_tasks s ! i; (ms, t') = handle_io_turn E rd w t in
        s\<lparr>io_tasks := (io_tasks s)[i := (t', w)], messages := messages s @ ms\<rparr>)"

text \<open>
  \<open>None\<close> means that the step is not enabled. The loop first tests whether to stop, and only
  then selects a branch; the connection tasks run at any time until the daemon exits.
\<close>

fun loop_step ::
   "('path, 'perr) wire_env \<Rightarrow> 'r poll_read_fn \<Rightarrow> ('path \<Rightarrow> 'hash) \<Rightarrow>
    ('path, 'perr, 'cerr, 'herr, 'r, 'wr) label \<Rightarrow>
    ('path, 'hash, 'perr, 'cerr, 'herr, 'r, 'wr) loop_state \<Rightarrow>
    ('path, 'hash, 'perr, 'cerr, 'herr, 'r, 'wr) loop_state option" where
  "loop_step E rd hash (IoTurn i) s =
     (if phase s \<noteq> Finished \<and> i < length (io_tasks s) then Some (io_turn E rd i s) else None)"
| "loop_step E rd hash (Accepted reader writer) s =
     (if phase s = Looping \<and> \<not> loop_breaks s then Some (on_io reader writer s) else None)"
| "loop_step E rd hash (Received m) s =
     (if phase s = Looping \<and> \<not> loop_breaks s then
        (case messages s of
           [] \<Rightarrow> None
         | m' # ms \<Rightarrow> if m = m' then Some (on_message m (s\<lparr>messages := ms\<rparr>)) else None)
      else None)"
| "loop_step E rd hash (ClosureDone p res) s =
     (if phase s = Looping \<and> \<not> loop_breaks s \<and> p \<in> set (store_closures s)
      then Some (on_closure hash p res (s\<lparr>store_closures := remove1 p (store_closures s)\<rparr>))
      else None)"
| "loop_step E rd hash (PathHandled path result) s =
     (if path \<in> set (handle_store_paths s) then
        (case phase s of
           Looping \<Rightarrow> if loop_breaks s then None else Some (on_handled path result s)
         | Draining \<Rightarrow> Some (on_drained path result s)
         | Finished \<Rightarrow> None)
      else None)"
| "loop_step E rd hash Break s =
     (if phase s = Looping \<and> loop_breaks s then Some (on_break s) else None)"
| "loop_step E rd hash Finish s =
     (if phase s = Draining \<and> handle_store_paths s = [] then Some (on_finish s) else None)"

end
