(* ===== verification/Try_Fill.thy ===== *)
theory Try_Fill
  imports Async_Io
begin

text \<open>
  \<open>src/async_read_ext.rs\<close>: the future that reads until a buffer is full or the stream ends,
  first as the poll state machine of the source, then driven to completion over a scripted
  reader, the way \<open>await\<close> drives it. A reader whose other side is still open may leave the
  future waiting, which is the outcome \<open>FillBlocked\<close>.
\<close>

section \<open>The future\<close>

record 'r try_fill_future =
  tf_reader :: 'r
  tf_buf :: bytes
  num_read :: nat

definition try_fill :: "'r \<Rightarrow> bytes \<Rightarrow> 'r try_fill_future" where
  "try_fill r buf = \<lparr>tf_reader = r, tf_buf = buf, num_read = 0\<rparr>"

definition write_at :: "nat \<Rightarrow> bytes \<Rightarrow> bytes \<Rightarrow> bytes" where
  "write_at n got buf = take (length buf) (take n buf @ got @ drop (n + length got) buf)"

lemma length_write_at [simp]: "n \<le> length buf \<Longrightarrow> length (write_at n got buf) = length buf"
  by (simp add: write_at_def)

function try_fill_poll ::
  "'r poll_read_fn \<Rightarrow> 'r try_fill_future \<Rightarrow> (io_error + nat) poll \<times> 'r try_fill_future" where
  "try_fill_poll rd t =
     (if num_read t < length (tf_buf t) then
        (case rd (length (tf_buf t) - num_read t) (tf_reader t) of
           (Pending, r) \<Rightarrow> (Pending, t\<lparr>tf_reader := r\<rparr>)
         | (Ready (Inl e), r) \<Rightarrow> (Ready (Err e), t\<lparr>tf_reader := r\<rparr>)
         | (Ready (Inr got), r) \<Rightarrow>
             if length got = 0 then (Ready (Ok (num_read t)), t\<lparr>tf_reader := r\<rparr>)
             else try_fill_poll rd
               (t\<lparr>tf_reader := r, tf_buf := write_at (num_read t) got (tf_buf t),
                  num_read := num_read t + length got\<rparr>))
      else (Ready (Ok (num_read t)), t))"
  by pat_completeness auto
termination
  by (relation "measure (\<lambda>(rd, t). length (tf_buf t) - num_read t)")
    (auto intro!: diff_less_mono2)

declare try_fill_poll.simps [simp del]

section \<open>Awaiting it\<close>

datatype fill_outcome = Filled bytes | FillFailed io_error | FillBlocked

text \<open>The bytes the future has put into the buffer so far.\<close>

definition filled :: "'r try_fill_future \<Rightarrow> bytes" where
  "filled t = take (num_read t) (tf_buf t)"

definition tf_wf :: "'r try_fill_future \<Rightarrow> bool" where
  "tf_wf t \<longleftrightarrow> num_read t \<le> length (tf_buf t)"

lemma filled_write_at:
  "num_read t \<le> length (tf_buf t) \<Longrightarrow> length got \<le> length (tf_buf t) - num_read t \<Longrightarrow>
     filled (t\<lparr>tf_reader := r, tf_buf := write_at (num_read t) got (tf_buf t),
       num_read := num_read t + length got\<rparr>) = filled t @ got"
  by (simp add: filled_def write_at_def)

text \<open>
  One poll of the future: it hands on what it read, keeps the buffer's length, and reports
  fewer bytes than the buffer holds only at the end of the stream.
\<close>

definition fill_post :: "('r \<Rightarrow> bytes) \<Rightarrow> ('r \<Rightarrow> nat) \<Rightarrow> ('r \<Rightarrow> bool) \<Rightarrow> ('r \<Rightarrow> bool) \<Rightarrow> 'r try_fill_future \<Rightarrow>
    (io_error + nat) poll \<Rightarrow> 'r try_fill_future \<Rightarrow> bool" where
  "fill_post st wt idl lv t a t' \<longleftrightarrow>
     tf_wf t' \<and> length (tf_buf t') = length (tf_buf t) \<and>
     filled t @ st (tf_reader t) = filled t' @ st (tf_reader t') \<and>
     (lv (tf_reader t) \<longrightarrow> lv (tf_reader t')) \<and> wt (tf_reader t') \<le> wt (tf_reader t) \<and>
     (case a of
        Pending \<Rightarrow> wt (tf_reader t') < wt (tf_reader t) \<or> idl (tf_reader t')
      | Ready (Inl e) \<Rightarrow> \<not> lv (tf_reader t)
      | Ready (Inr n) \<Rightarrow> n = num_read t' \<and> (n < length (tf_buf t) \<longrightarrow> st (tf_reader t') = []))"

lemma fill_post_trans:
  assumes "fill_post st wt idl lv u a t'" "length (tf_buf u) = length (tf_buf t)"
    and "filled t @ st (tf_reader t) = filled u @ st (tf_reader u)"
    and "lv (tf_reader t) \<Longrightarrow> lv (tf_reader u)" "wt (tf_reader u) \<le> wt (tf_reader t)"
  shows "fill_post st wt idl lv t a t'"
  using assms by (auto simp: fill_post_def split: poll.splits sum.splits)

context async_read_live
begin

lemma try_fill_poll_post:
  "try_fill_poll poll_read t = (a, t') \<Longrightarrow> tf_wf t \<Longrightarrow> fill_post stream weight idle live t a t'"
proof (induction "length (tf_buf t) - num_read t" arbitrary: t rule: less_induct)
  case less
  show ?case
  proof (cases "num_read t < length (tf_buf t)")
    case False
    with less.prems show ?thesis
      by (auto simp: try_fill_poll.simps fill_post_def tf_wf_def)
  next
    case True
    obtain ans r where ar: "poll_read (length (tf_buf t) - num_read t) (tf_reader t) = (ans, r)"
      by (cases "poll_read (length (tf_buf t) - num_read t) (tf_reader t)")
    note unf = try_fill_poll.simps [of poll_read t, unfolded ar]
    show ?thesis
    proof (cases ans rule: read_answer_cases)
      case pending
      with True ar unf less.prems show ?thesis
        by (auto simp: fill_post_def tf_wf_def filled_def
            dest: read_pending pending_progress live_kept weight_le)
    next
      case (err e)
      with True ar unf less.prems show ?thesis
        by (auto simp: fill_post_def tf_wf_def filled_def
            dest: read_err weight_le live_kept live_no_err)
    next
      case eof
      with True ar have "stream (tf_reader t) = []" "stream r = []"
        using read_ok [of "length (tf_buf t) - num_read t"] read_eof [of "length (tf_buf t) - num_read t"]
        by fastforce+
      with eof True ar unf less.prems show ?thesis
        by (auto simp: fill_post_def tf_wf_def filled_def dest: weight_le live_kept)
    next
      case (got got)
      let ?u = "t\<lparr>tf_reader := r, tf_buf := write_at (num_read t) got (tf_buf t),
        num_read := num_read t + length got\<rparr>"
      have ok: "length got \<le> length (tf_buf t) - num_read t" "stream (tf_reader t) = got @ stream r"
        using got ar by (auto dest: read_ok)
      have "try_fill_poll poll_read ?u = (a, t')"
        using True got unf less.prems(1) by simp
      moreover have "length (tf_buf ?u) - num_read ?u < length (tf_buf t) - num_read t"
        using True got(2) by (cases got) auto
      moreover have "tf_wf ?u"
        using True ok by (simp add: tf_wf_def)
      ultimately have "fill_post stream weight idle live ?u a t'"
        by (intro less.hyps)
      moreover have "filled ?u = filled t @ got"
        using True ok(1) by (intro filled_write_at) auto
      ultimately show ?thesis
        using True ok ar
        by (intro fill_post_trans [of stream weight idle live ?u a t' t]) (auto dest: live_kept weight_le)
    qed
  qed
qed

end

section \<open>Over a scripted reader\<close>

lemma sr_poll_closed: "sr_poll_read n r = (a, r') \<Longrightarrow> r_closed r' = r_closed r"
  by (auto simp: sr_poll_read_def split: prod.splits)

lemma sr_poll_eof_closed: "sr_poll_read n r = (Ready (Ok []), r') \<Longrightarrow> 0 < n \<Longrightarrow> r_closed r"
proof -
  have "read_script n c es = (Ready (Ok []), es') \<Longrightarrow> 0 < n \<Longrightarrow> c" for c es es'
    by (induction n c es rule: read_script.induct) (auto split: if_splits)
  then show "sr_poll_read n r = (Ready (Ok []), r') \<Longrightarrow> 0 < n \<Longrightarrow> r_closed r"
    by (auto simp: sr_poll_read_def split: prod.splits)
qed

lemma try_fill_poll_closed:
  "try_fill_poll sr_poll_read t = (a, t') \<Longrightarrow>
     r_closed (tf_reader t') = r_closed (tf_reader t) \<and>
     (\<forall>n. a = Ready (Ok n) \<longrightarrow> n < length (tf_buf t') \<longrightarrow> r_closed (tf_reader t))"
proof (induction rd \<equiv> "sr_poll_read" t rule: try_fill_poll.induct)
  case (1 t)
  show ?case
    using "1.prems" "1.hyps"
    by (simp add: try_fill_poll.simps [of sr_poll_read t] split: if_splits prod.splits poll.splits sum.splits)
      (auto dest: sr_poll_closed sr_poll_eof_closed)
qed

text \<open>Driving the future until it is ready, or until the reader has nothing more to offer.\<close>

function fill_await :: "script_reader try_fill_future \<Rightarrow> fill_outcome \<times> script_reader" where
  "fill_await t =
     (case try_fill_poll sr_poll_read t of
        (Ready (Inr n), t') \<Rightarrow> (Filled (take n (tf_buf t')), tf_reader t')
      | (Ready (Inl e), t') \<Rightarrow> (FillFailed e, tf_reader t')
      | (Pending, t') \<Rightarrow>
          if sr_idle (tf_reader t') then (FillBlocked, tf_reader t') else fill_await t')"
  by pat_completeness auto
termination
proof (relation "measure (\<lambda>t. sr_weight (tf_reader t))")
  fix t t' :: "script_reader try_fill_future" and a
  assume p: "(a, t') = try_fill_poll sr_poll_read t" "a = Pending" "\<not> sr_idle (tf_reader t')"
  then have "tf_wf t"
    by (auto simp: try_fill_poll.simps [of sr_poll_read t] tf_wf_def split: if_splits)
  with p have "fill_post sr_stream sr_weight sr_idle sr_live t a t'"
    by (intro sr.try_fill_poll_post) auto
  with p show "(t', t) \<in> measure (\<lambda>t. sr_weight (tf_reader t))"
    by (auto simp: fill_post_def)
qed auto

declare fill_await.simps [simp del]

lemma fill_await_spec:
  assumes "fill_await t = (out, r')" "tf_wf t"
  shows "r_closed r' = r_closed (tf_reader t) \<and> sr_weight r' \<le> sr_weight (tf_reader t) \<and>
    (sr_live (tf_reader t) \<longrightarrow> sr_live r') \<and>
    (case out of
       Filled bs \<Rightarrow> bs @ sr_stream r' = filled t @ sr_stream (tf_reader t) \<and> length bs \<le> length (tf_buf t) \<and>
         (length bs < length (tf_buf t) \<longrightarrow> sr_stream r' = [] \<and> r_closed r')
     | FillFailed e \<Rightarrow> \<not> sr_live (tf_reader t)
     | FillBlocked \<Rightarrow> \<not> r_closed r')"
  using assms
proof (induction t rule: fill_await.induct)
  case (1 t)
  obtain a t' where p: "try_fill_poll sr_poll_read t = (a, t')"
    by (cases "try_fill_poll sr_poll_read t")
  note post = sr.try_fill_poll_post [OF p "1.prems"(2)]
  note closed = try_fill_poll_closed [OF p]
  show ?case
  proof (cases a)
    case (Ready res)
    with "1.prems"(1) p post closed show ?thesis
      by (cases res) (auto simp: fill_await.simps [of t] fill_post_def filled_def tf_wf_def)
  next
    case Pending
    show ?thesis
    proof (cases "sr_idle (tf_reader t')")
      case True
      with "1.prems"(1) p post closed Pending show ?thesis
        by (auto simp: fill_await.simps [of t] fill_post_def sr_idle_def)
    next
      case False
      have "fill_await t' = (out, r')"
        using "1.prems"(1) p Pending False by (simp add: fill_await.simps [of t])
      moreover have "tf_wf t'"
        using post by (simp add: fill_post_def)
      ultimately show ?thesis
        using "1.IH" [OF p [symmetric] Pending False] post closed
        by (auto simp: fill_post_def split: fill_outcome.splits)
    qed
  qed
qed

text \<open>A full or partly filled buffer says nothing was lost on the way; a short one, that the
  other side was closed and no failure is left in the script.\<close>

lemma read_script_live:
  "read_script n c es = (Pending, es') \<Longrightarrow> no_fail es' = no_fail es"
  "read_script n c es = (Ready (Ok bs), es') \<Longrightarrow> no_fail es' = no_fail es"
  "read_script n c es = (Ready (Ok []), es') \<Longrightarrow> 0 < n \<Longrightarrow> c \<and> no_fail es"
  by (induction n c es rule: read_script.induct) (auto split: if_splits)

lemma sr_poll_live:
  "sr_poll_read n r = (Pending, r') \<Longrightarrow> sr_live r' = sr_live r"
  "sr_poll_read n r = (Ready (Ok bs), r') \<Longrightarrow> sr_live r' = sr_live r"
  "sr_poll_read n r = (Ready (Ok []), r') \<Longrightarrow> 0 < n \<Longrightarrow> sr_live r"
  using read_script_live [of n "r_closed r" "r_script r"]
  by (auto simp: sr_poll_read_def sr_live_def split: prod.splits)

lemma try_fill_poll_live:
  "try_fill_poll sr_poll_read t = (a, t') \<Longrightarrow> \<forall>e. a \<noteq> Ready (Err e) \<Longrightarrow>
     sr_live (tf_reader t') = sr_live (tf_reader t) \<and>
     (\<forall>n. a = Ready (Ok n) \<longrightarrow> n < length (tf_buf t') \<longrightarrow> sr_live (tf_reader t))"
proof (induction rd \<equiv> "sr_poll_read" t rule: try_fill_poll.induct)
  case (1 t)
  show ?case
    using "1.prems" "1.hyps"
    by (simp add: try_fill_poll.simps [of sr_poll_read t] split: if_splits prod.splits poll.splits sum.splits)
      (auto dest: sr_poll_live, metis sr_poll_live(2))
qed

lemma fill_await_live:
  "fill_await t = (Filled bs, r') \<Longrightarrow> tf_wf t \<Longrightarrow>
     sr_live r' = sr_live (tf_reader t) \<and> (length bs < length (tf_buf t) \<longrightarrow> sr_live (tf_reader t))"
proof (induction t rule: fill_await.induct)
  case (1 t)
  obtain a t' where p: "try_fill_poll sr_poll_read t = (a, t')"
    by (cases "try_fill_poll sr_poll_read t")
  note post = sr.try_fill_poll_post [OF p "1.prems"(2)]
  show ?case
  proof (cases "a = Pending")
    case True
    then have np: "\<not> sr_idle (tf_reader t')" and "fill_await t' = (Filled bs, r')"
      using "1.prems"(1) p by (auto simp: fill_await.simps [of t] split: if_splits)
    moreover have "tf_wf t'" "length (tf_buf t') = length (tf_buf t)"
      using post by (simp_all add: fill_post_def)
    ultimately show ?thesis
      using "1.IH" [OF p [symmetric] True np] try_fill_poll_live [OF p] True by auto
  next
    case False
    then obtain n where "a = Ready (Ok n)"
      using "1.prems"(1) p by (auto simp: fill_await.simps [of t] split: poll.splits sum.splits)
    with "1.prems"(1) p post try_fill_poll_live [OF p] show ?thesis
      by (auto simp: fill_await.simps [of t] fill_post_def tf_wf_def)
  qed
qed

text \<open>Filling a fresh buffer of \<open>n\<close> bytes.\<close>

definition fill_buffer :: "nat \<Rightarrow> script_reader \<Rightarrow> fill_outcome \<times> script_reader" where
  "fill_buffer n r = fill_await (try_fill r (replicate n 0))"

lemma try_fill_simps [simp]:
  "tf_wf (try_fill r buf)" "filled (try_fill r buf) = []" "tf_reader (try_fill r buf) = r"
  "tf_buf (try_fill r buf) = buf"
  by (simp_all add: tf_wf_def filled_def try_fill_def)

lemma fill_buffer_Filled:
  assumes "fill_buffer n r = (Filled bs, r')"
  shows "bs = take n (sr_stream r)" "sr_stream r' = drop n (sr_stream r)" "r_closed r' = r_closed r"
    "length bs < n \<Longrightarrow> r_closed r" "sr_live r \<Longrightarrow> sr_live r'" "sr_stream r = bs @ sr_stream r'"
proof -
  have *: "r_closed r' = r_closed r" "bs @ sr_stream r' = sr_stream r" "length bs \<le> n"
    "length bs < n \<Longrightarrow> sr_stream r' = [] \<and> r_closed r'" "sr_live r \<Longrightarrow> sr_live r'"
    using fill_await_spec [OF assms [unfolded fill_buffer_def]] by auto
  then have "take n (sr_stream r) = bs \<and> drop n (sr_stream r) = sr_stream r'"
    by (cases "length bs = n") (auto simp flip: *(2))
  with * show "bs = take n (sr_stream r)" "sr_stream r' = drop n (sr_stream r)" "r_closed r' = r_closed r"
    "length bs < n \<Longrightarrow> r_closed r" "sr_live r \<Longrightarrow> sr_live r'" "sr_stream r = bs @ sr_stream r'"
    by auto
qed

lemma fill_buffer_live:
  assumes "sr_live r"
  obtains r' where "fill_buffer n r = (Filled (take n (sr_stream r)), r')" "sr_live r'"
    "sr_stream r' = drop n (sr_stream r)"
proof -
  obtain out r' where o: "fill_buffer n r = (out, r')" by (cases "fill_buffer n r")
  have "\<exists>bs. out = Filled bs"
    using fill_await_spec [OF o [unfolded fill_buffer_def]] assms
    by (cases out) (auto simp: sr_live_def)
  with o fill_buffer_Filled [of n r _ r'] assms that show thesis by blast
qed

lemma fill_buffer_blocked: "fill_buffer n r = (FillBlocked, r') \<Longrightarrow> \<not> r_closed r"
  unfolding fill_buffer_def using fill_await_spec [of "try_fill r (replicate n 0)" FillBlocked r'] by auto

lemma fill_buffer_Filled_live:
  assumes "fill_buffer n r = (Filled bs, r')"
  shows "sr_live r' = sr_live r" "length bs < n \<Longrightarrow> sr_live r"
  using fill_await_live [OF assms [unfolded fill_buffer_def]] by auto

section \<open>Properties\<close>

text \<open>
  C34: Reading from a peer that closes without a failure, the future delivers exactly the next
  bytes of the stream, as many as the buffer holds or as are left, and leaves the rest: a
  short count means the end of the stream.
\<close>

theorem try_fill_exact:
  assumes "sr_live r"
  shows "\<exists>r'. fill_buffer n r = (Filled (take n (sr_stream r)), r') \<and> sr_stream r' = drop n (sr_stream r)"
  using fill_buffer_live [OF assms] by metis

theorem try_fill_exact_witness:
  "\<exists>r'. fill_buffer 3 \<lparr>r_script = [Chunk [1, 2], RStall, Chunk [3, 4, 5]], r_closed = True\<rparr> =
     (Filled [1, 2, 3], r') \<and> sr_stream r' = [4, 5]"
  using try_fill_exact [of "\<lparr>r_script = [Chunk [1, 2], RStall, Chunk [3, 4, 5]], r_closed = True\<rparr>" 3]
  by (simp add: sr_live_def sr_stream_def numeral_3_eq_3)

end
