(* ===== verification/Sub60_Cache.thy ===== *)
theory Sub60_Cache
  imports Try_Fill
begin

text \<open>
  \<open>src/sub60_cache.rs\<close>: the client of the sub60 binary cache. It talks HTTP through
  \<open>reqwest\<close>; the requests it makes are data, appended to a log, and the server is an arbitrary
  function from the log and the request to the answer, so a theorem holds for every behaviour
  of the server. The clock is an arbitrary sequence of readings.

  Everything else that lies outside the repository is a field of \<open>sub60_env\<close>: the manipulation
  of URLs (\<open>url\<close>), the construction of the HTTP client, the bodies of requests and responses (\<open>sub60_cache\<close>), the printing of
  store paths and NARInfos (\<open>nix_types\<close>), the decoding of headers (\<open>http\<close>).
\<close>

section \<open>Requests and the network\<close>

datatype http_method = HEAD | GET | POST | PUT

record 'url request =
  req_method :: http_method
  req_url :: 'url
  req_body :: bytes

text \<open>
  A response: its status, its \<open>ETag\<close> header if there is one, and what reading its body as text
  gives.
\<close>

record 'x response =
  resp_status :: nat
  resp_etag :: "bytes option"
  resp_text :: "'x + string"

text \<open>The requests sent so far and the number of times the clock was read.\<close>

record 'url net =
  sent :: "'url request list"
  ticks :: nat

text \<open>
  How an asynchronous operation ends: with a value, in a panic, or never, because it waits for
  bytes nobody will write.
\<close>

datatype 'a outcome = Done 'a | Panicked | Blocked

section \<open>The environment\<close>

text \<open>
  Times are in nanoseconds since the UNIX epoch; a clock set before it reads \<open>None\<close>. (A
  \<open>SystemTime\<close> is far too small for the addition of ten seconds to overflow a \<open>Duration\<close>.)
\<close>

record 'url multiparts_body =
  mb_part_size :: u32
  mb_parts_urls :: "'url list"
  mb_upload_id :: string
  mb_expiration_ts :: int

record 'url parts_body =
  pb_urls :: "'url list"
  pb_expiration_ts :: int

record ('url, 'path, 'base, 'hash, 'narinfo, 'etag, 'x) sub60_env =
  http :: "'url request list \<Rightarrow> 'url request \<Rightarrow> 'x + 'x response"
  now :: "nat \<Rightarrow> int option"
  show_x :: "'x \<Rightarrow> string"
  build_client :: "'x + unit"
  base_url :: 'url
  push_segment :: "'url \<Rightarrow> string \<Rightarrow> 'url option"
  append_upload_id :: "'url \<Rightarrow> string \<Rightarrow> 'url"
  path_basename :: "'path \<Rightarrow> 'base"
  basename_str :: "'base \<Rightarrow> string"
  narinfo_filename_str :: "'hash \<Rightarrow> string"
  narinfo_str :: "'narinfo \<Rightarrow> string"
  complete_body_str :: "'etag list \<Rightarrow> 'base \<Rightarrow> string"
  parts_body_str :: "u16 list \<Rightarrow> 'base \<Rightarrow> string"
  parse_multiparts_body :: "string \<Rightarrow> 'x + 'url multiparts_body"
  parse_parts_body :: "string \<Rightarrow> 'x + 'url parts_body"
  header_to_str :: "bytes \<Rightarrow> 'x + string"
  parse_etag :: "string \<Rightarrow> 'x + 'etag"

section \<open>Errors and state\<close>

datatype 'x quoted_from_str_error = MissingQuotes | QuotedInner 'x

datatype ('url, 'x) cache_request_error =
    ParseEtag "'x quoted_from_str_error"
  | InvalidResponseHeader http_method 'url string 'x
  | MissingResponseHeader http_method 'url string
  | ParseNarMultipartsResponseBody 'x
  | ParsePartsResponseBody 'x
  | ReadNar io_error
  | HttpRequest http_method 'x
  | TooManyNarParts
  | UnexpectedResponse http_method nat 'url string

record ('url, 'base) nar_upload_state =
  part_size :: u32
  part_urls :: "'url list"
  store_basename :: 'base
  upload_id :: string
  urls_expiration_ts :: int

record 'url sub60_cache =
  cache_url :: 'url

record sub60_cache_run_args =
  arg_user :: string
  arg_cache :: string
  arg_auth_token :: string

section \<open>Quoted header values\<close>

text \<open>\<open>str::strip_prefix\<close> and \<open>str::strip_suffix\<close> with a one-byte pattern.\<close>

fun strip_prefix :: "char \<Rightarrow> string \<Rightarrow> string option" where
  "strip_prefix c [] = None"
| "strip_prefix c (d # s) = (if c = d then Some s else None)"

definition strip_suffix :: "char \<Rightarrow> string \<Rightarrow> string option" where
  "strip_suffix c s = (if s \<noteq> [] \<and> last s = c then Some (butlast s) else None)"

definition quoted_from_str :: "(string \<Rightarrow> 'x + 'a) \<Rightarrow> string \<Rightarrow> 'x quoted_from_str_error + 'a" where
  "quoted_from_str parse s =
     bind_result (ok_or MissingQuotes
         (Option.bind (strip_prefix CHR 0x22 s) (strip_suffix CHR 0x22)))
       (\<lambda>inner. map_err QuotedInner (parse inner))"

definition response_body_suffix :: "string \<Rightarrow> string" where
  "response_body_suffix body = (if body = [] then [] else '': '' @ body)"

section \<open>URLs\<close>

text \<open>
  Pushing path segments panics on a URL that cannot be a base, which is \<open>None\<close> here. The
  segments of one \<open>path_segments_mut\<close> are pushed in order.
\<close>

fun push_segments ::
  "('url, 'path, 'base, 'hash, 'narinfo, 'etag, 'x) sub60_env \<Rightarrow> 'url \<Rightarrow> string list \<Rightarrow> 'url option" where
  "push_segments E u [] = Some u"
| "push_segments E u (s # ss) =
     (case push_segment E u s of None \<Rightarrow> None | Some u' \<Rightarrow> push_segments E u' ss)"

datatype 'x sub60_cache_connect_error = BuildHttpClient 'x

definition connect ::
  "('url, 'path, 'base, 'hash, 'narinfo, 'etag, 'x) sub60_env \<Rightarrow> sub60_cache_run_args \<Rightarrow>
     ('x sub60_cache_connect_error + 'url sub60_cache) outcome" where
  "connect E args =
     (case push_segments E (base_url E) [arg_user args, arg_cache args] of
        None \<Rightarrow> Panicked
      | Some u \<Rightarrow> Done (bind_result (map_err BuildHttpClient (build_client E)) (\<lambda>_. Ok \<lparr>cache_url = u\<rparr>)))"

definition narinfo_url ::
  "('url, 'path, 'base, 'hash, 'narinfo, 'etag, 'x) sub60_env \<Rightarrow> 'url sub60_cache \<Rightarrow> 'hash \<Rightarrow> 'url option" where
  "narinfo_url E c h = push_segments E (cache_url c) [narinfo_filename_str E h]"

definition narinfo_upload_url ::
  "('url, 'path, 'base, 'hash, 'narinfo, 'etag, 'x) sub60_env \<Rightarrow> 'url sub60_cache \<Rightarrow> 'hash \<Rightarrow> string \<Rightarrow> 'url option" where
  "narinfo_upload_url E c h uid = map_option (\<lambda>u. append_upload_id E u uid) (narinfo_url E c h)"

definition nar_multiparts_url ::
  "('url, 'path, 'base, 'hash, 'narinfo, 'etag, 'x) sub60_env \<Rightarrow> 'url sub60_cache \<Rightarrow> 'url option" where
  "nar_multiparts_url E c = push_segments E (cache_url c) [''nar-multiparts'']"

definition nar_multiparts_parts_url ::
  "('url, 'path, 'base, 'hash, 'narinfo, 'etag, 'x) sub60_env \<Rightarrow> 'url sub60_cache \<Rightarrow> string \<Rightarrow> 'url option" where
  "nar_multiparts_parts_url E c uid =
     Option.bind (nar_multiparts_url E c) (\<lambda>u. push_segments E u [uid, ''parts''])"

definition nar_multiparts_complete_url ::
  "('url, 'path, 'base, 'hash, 'narinfo, 'etag, 'x) sub60_env \<Rightarrow> 'url sub60_cache \<Rightarrow> string \<Rightarrow> 'url option" where
  "nar_multiparts_complete_url E c uid =
     Option.bind (nar_multiparts_url E c) (\<lambda>u. push_segments E u [uid, ''complete''])"

section \<open>Single requests\<close>

definition send ::
  "('url, 'path, 'base, 'hash, 'narinfo, 'etag, 'x) sub60_env \<Rightarrow> http_method \<Rightarrow> 'url \<Rightarrow> bytes \<Rightarrow> 'url net \<Rightarrow>
     ((('url, 'x) cache_request_error) + 'x response) \<times> 'url net" where
  "send E meth u body w =
     (let rq = \<lparr>req_method = meth, req_url = u, req_body = body\<rparr> in
        (map_err (HttpRequest meth) (http E (sent w) rq), w\<lparr>sent := sent w @ [rq]\<rparr>))"

definition is_success :: "nat \<Rightarrow> bool" where
  "is_success status \<longleftrightarrow> 200 \<le> status \<and> status < 300"

definition unexpected_response ::
  "('url, 'path, 'base, 'hash, 'narinfo, 'etag, 'x) sub60_env \<Rightarrow> 'x response \<Rightarrow> http_method \<Rightarrow> 'url \<Rightarrow>
     ('url, 'x) cache_request_error" where
  "unexpected_response E r meth u =
     UnexpectedResponse meth (resp_status r) u
       (case resp_text r of
          Inr body \<Rightarrow> body
        | Inl err \<Rightarrow> ''<couldn't read response body: '' @ show_x E err @ ''>'')"

text \<open>
  \<open>post_checked\<close> is the part \<open>complete_nar_upload\<close>, \<open>request_part_urls\<close> and
  \<open>initiate_nar_upload\<close> share: send a POST and insist on a successful status.
\<close>

definition post_checked ::
  "('url, 'path, 'base, 'hash, 'narinfo, 'etag, 'x) sub60_env \<Rightarrow> 'url \<Rightarrow> string \<Rightarrow> 'url net \<Rightarrow>
     (('url, 'x) cache_request_error + 'x response) \<times> 'url net" where
  "post_checked E u body w =
     (case send E POST u (as_bytes body) w of
        (Inl e, w') \<Rightarrow> (Err e, w')
      | (Inr r, w') \<Rightarrow>
          if is_success (resp_status r) then (Ok r, w')
          else (Err (unexpected_response E r POST u), w'))"

definition complete_nar_upload ::
  "('url, 'path, 'base, 'hash, 'narinfo, 'etag, 'x) sub60_env \<Rightarrow> 'url sub60_cache \<Rightarrow> string \<Rightarrow> 'etag list \<Rightarrow> 'base \<Rightarrow>
     'url net \<Rightarrow> (('url, 'x) cache_request_error + unit) outcome \<times> 'url net" where
  "complete_nar_upload E c uid etags base w =
     (case nar_multiparts_complete_url E c uid of
        None \<Rightarrow> (Panicked, w)
      | Some u \<Rightarrow>
          (case post_checked E u (complete_body_str E etags base) w of
             (Inl e, w') \<Rightarrow> (Done (Err e), w')
           | (Inr r, w') \<Rightarrow> (Done (Ok ()), w')))"

definition request_part_urls ::
  "('url, 'path, 'base, 'hash, 'narinfo, 'etag, 'x) sub60_env \<Rightarrow> 'url sub60_cache \<Rightarrow> string \<Rightarrow> u16 list \<Rightarrow> 'base \<Rightarrow>
     'url net \<Rightarrow> (('url, 'x) cache_request_error + 'url parts_body) outcome \<times> 'url net" where
  "request_part_urls E c uid part_numbers base w =
     (case nar_multiparts_parts_url E c uid of
        None \<Rightarrow> (Panicked, w)
      | Some u \<Rightarrow>
          (case post_checked E u (parts_body_str E part_numbers base) w of
             (Inl e, w') \<Rightarrow> (Done (Err e), w')
           | (Inr r, w') \<Rightarrow>
               (Done (bind_result (map_err (HttpRequest POST) (resp_text r))
                  (\<lambda>t. map_err ParsePartsResponseBody (parse_parts_body E t))), w')))"

definition upload_part ::
  "('url, 'path, 'base, 'hash, 'narinfo, 'etag, 'x) sub60_env \<Rightarrow> 'url \<Rightarrow> bytes \<Rightarrow> 'url net \<Rightarrow>
     (('url, 'x) cache_request_error + 'etag) \<times> 'url net" where
  "upload_part E u part_bytes w =
     (case send E PUT u part_bytes w of
        (Inl e, w') \<Rightarrow> (Err e, w')
      | (Inr r, w') \<Rightarrow>
          if \<not> is_success (resp_status r) then (Err (unexpected_response E r PUT u), w')
          else
            (bind_result (ok_or (MissingResponseHeader PUT u ''etag'') (resp_etag r))
               (\<lambda>h. bind_result (map_err (InvalidResponseHeader PUT u ''etag'') (header_to_str E h))
                  (\<lambda>t. map_err ParseEtag (quoted_from_str (parse_etag E) t))), w'))"

section \<open>The operations of the cache\<close>

definition sub60_has_narinfo ::
  "('url, 'path, 'base, 'hash, 'narinfo, 'etag, 'x) sub60_env \<Rightarrow> 'url sub60_cache \<Rightarrow> 'hash \<Rightarrow>
     'url net \<Rightarrow> (('url, 'x) cache_request_error + bool) outcome \<times> 'url net" where
  "sub60_has_narinfo E c h w =
     (case narinfo_url E c h of
        None \<Rightarrow> (Panicked, w)
      | Some u \<Rightarrow>
          (case send E HEAD u [] w of
             (Inl e, w') \<Rightarrow> (Done (Err e), w')
           | (Inr r, w') \<Rightarrow>
               (Done (if resp_status r = 200 then Ok True
                      else if resp_status r = 404 then Ok False
                      else Err (unexpected_response E r HEAD u)), w')))"

definition sub60_initiate_nar_upload ::
  "('url, 'path, 'base, 'hash, 'narinfo, 'etag, 'x) sub60_env \<Rightarrow> 'url sub60_cache \<Rightarrow> 'path \<Rightarrow>
     'url net \<Rightarrow> (('url, 'x) cache_request_error + ('url, 'base) nar_upload_state) outcome \<times> 'url net" where
  "sub60_initiate_nar_upload E c path w =
     (case nar_multiparts_url E c of
        None \<Rightarrow> (Panicked, w)
      | Some u \<Rightarrow>
          (case post_checked E u (basename_str E (path_basename E path)) w of
             (Inl e, w') \<Rightarrow> (Done (Err e), w')
           | (Inr r, w') \<Rightarrow>
               (Done (bind_result (map_err (HttpRequest POST) (resp_text r))
                  (\<lambda>t. bind_result (map_err ParseNarMultipartsResponseBody (parse_multiparts_body E t))
                     (\<lambda>body. Ok \<lparr>part_size = mb_part_size body, part_urls = mb_parts_urls body,
                        store_basename = path_basename E path, upload_id = mb_upload_id body,
                        urls_expiration_ts = mb_expiration_ts body\<rparr>))), w')))"

text \<open>
  \<open>NonZeroU16::checked_add(1)\<close> and \<open>iter::successors(..).take(n)\<close> over it.
\<close>

definition checked_succ :: "u16 \<Rightarrow> u16 option" where
  "checked_succ n = (if n = - 1 then None else Some (n + 1))"

fun successors :: "nat \<Rightarrow> u16 option \<Rightarrow> u16 list" where
  "successors 0 n = []"
| "successors (Suc k) None = []"
| "successors (Suc k) (Some n) = n # successors k (checked_succ n)"

definition CLOCK_SKEW_BUFFER :: int where
  "CLOCK_SKEW_BUFFER = 10 * 1000000000"

text \<open>
  The loop of \<open>upload_nar\<close>: its variables, with the caller's \<open>state\<close> and the network, and
  what one turn of the loop does. \<open>Continue\<close> goes round the loop, \<open>Return\<close> leaves
  \<open>upload_nar\<close>, either with an early return or through the loop's \<open>break\<close> and
  \<open>complete_nar_upload\<close>.
\<close>

record ('url, 'base, 'etag) upload_vars =
  v_state :: "('url, 'base) nar_upload_state"
  v_part_number :: u16
  v_etags :: "'etag list"
  v_reader :: script_reader
  v_net :: "'url net"

datatype ('s, 'r) turn = Continue 's | Return 'r

type_synonym ('url, 'base, 'x) upload_result =
  "(('url, 'x) cache_request_error + unit) outcome \<times> ('url, 'base) nar_upload_state \<times> 'url net"

definition discard_expired :: "int \<Rightarrow> ('url, 'base) nar_upload_state \<Rightarrow> ('url, 'base) nar_upload_state" where
  "discard_expired t st =
     (if urls_expiration_ts st \<le> t + CLOCK_SKEW_BUFFER then st\<lparr>part_urls := []\<rparr> else st)"

definition refill_urls ::
  "('url, 'path, 'base, 'hash, 'narinfo, 'etag, 'x) sub60_env \<Rightarrow> 'url sub60_cache \<Rightarrow>
     ('url, 'base, 'etag) upload_vars \<Rightarrow>
     (('url, 'base, 'etag) upload_vars, ('url, 'base, 'x) upload_result) turn" where
  "refill_urls E c v =
     (let st = v_state v in
      case request_part_urls E c (upload_id st) (successors 4 (Some (v_part_number v)))
             (store_basename st) (v_net v) of
        (Done (Inr parts), w) \<Rightarrow>
          Continue (v\<lparr>v_state := st\<lparr>part_urls := part_urls st @ pb_urls parts,
            urls_expiration_ts := pb_expiration_ts parts\<rparr>, v_net := w\<rparr>)
      | (Done (Inl e), w) \<Rightarrow> Return (Done (Err e), st, w)
      | (Panicked, w) \<Rightarrow> Return (Panicked, st, w)
      | (Blocked, w) \<Rightarrow> Return (Blocked, st, w))"

definition finish_upload ::
  "('url, 'path, 'base, 'hash, 'narinfo, 'etag, 'x) sub60_env \<Rightarrow> 'url sub60_cache \<Rightarrow>
     ('url, 'base) nar_upload_state \<Rightarrow> 'etag list \<Rightarrow> 'url net \<Rightarrow> ('url, 'base, 'x) upload_result" where
  "finish_upload E c st etags w =
     (let (out, w') = complete_nar_upload E c (upload_id st) etags (store_basename st) w in (out, st, w'))"

definition push_part ::
  "('url, 'path, 'base, 'hash, 'narinfo, 'etag, 'x) sub60_env \<Rightarrow> 'url sub60_cache \<Rightarrow> 'url \<Rightarrow>
     ('url, 'base, 'etag) upload_vars \<Rightarrow>
     (('url, 'base, 'etag) upload_vars, ('url, 'base, 'x) upload_result) turn" where
  "push_part E c part_url v =
     (let st = v_state v; w = v_net v in
      case fill_buffer (unat (part_size st)) (v_reader v) of
        (FillBlocked, r) \<Rightarrow> Return (Blocked, st, w)
      | (FillFailed e, r) \<Rightarrow> Return (Done (Err (ReadNar e)), st, w)
      | (Filled part_bytes, r) \<Rightarrow>
          if length part_bytes = 0 then Return (finish_upload E c st (v_etags v) w)
          else
            (case upload_part E part_url part_bytes w of
               (Inl e, w') \<Rightarrow> Return (Done (Err e), st, w')
             | (Inr etag, w') \<Rightarrow>
                 if length part_bytes < unat (part_size st)
                 then Return (finish_upload E c st (v_etags v @ [etag]) w')
                 else
                   (case checked_succ (v_part_number v) of
                      None \<Rightarrow> Return (Done (Err TooManyNarParts), st, w')
                    | Some n \<Rightarrow>
                        Continue (v\<lparr>v_part_number := n, v_etags := v_etags v @ [etag],
                          v_reader := r, v_net := w'\<rparr>))))"

definition upload_turn ::
  "('url, 'path, 'base, 'hash, 'narinfo, 'etag, 'x) sub60_env \<Rightarrow> 'url sub60_cache \<Rightarrow>
     ('url, 'base, 'etag) upload_vars \<Rightarrow>
     (('url, 'base, 'etag) upload_vars, ('url, 'base, 'x) upload_result) turn" where
  "upload_turn E c v =
     (case now E (ticks (v_net v)) of
        None \<Rightarrow> Return (Panicked, v_state v, v_net v)
      | Some t \<Rightarrow>
          let st = discard_expired t (v_state v);
              v1 = v\<lparr>v_state := st, v_net := (v_net v)\<lparr>ticks := ticks (v_net v) + 1\<rparr>\<rparr>
          in (case part_urls st of
                [] \<Rightarrow> refill_urls E c v1
              | part_url # urls \<Rightarrow> push_part E c part_url (v1\<lparr>v_state := st\<lparr>part_urls := urls\<rparr>\<rparr>)))"

text \<open>
  The loop need not end: a server that keeps answering with no URLs, or with expired ones, is
  asked for ever. Not ending is the value \<open>None\<close>. There is a second way of never returning:
  \<open>Some (Blocked, ..)\<close>, when the stream is open and nobody writes to it.
\<close>

partial_function (option) upload_loop ::
  "('url, 'path, 'base, 'hash, 'narinfo, 'etag, 'x) sub60_env \<Rightarrow> 'url sub60_cache \<Rightarrow>
     ('url, 'base, 'etag) upload_vars \<Rightarrow> ('url, 'base, 'x) upload_result option" where
  "upload_loop E c v =
     (case upload_turn E c v of Return res \<Rightarrow> Some res | Continue v' \<Rightarrow> upload_loop E c v')"

declare upload_loop.simps [code]

definition sub60_upload_nar ::
  "('url, 'path, 'base, 'hash, 'narinfo, 'etag, 'x) sub60_env \<Rightarrow> 'url sub60_cache \<Rightarrow>
     ('url, 'base) nar_upload_state \<Rightarrow> script_reader \<Rightarrow> 'url net \<Rightarrow>
     ('url, 'base, 'x) upload_result option" where
  "sub60_upload_nar E c st nar_bytes w =
     upload_loop E c \<lparr>v_state = st, v_part_number = 1, v_etags = [], v_reader = nar_bytes, v_net = w\<rparr>"

definition sub60_upload_narinfo ::
  "('url, 'path, 'base, 'hash, 'narinfo, 'etag, 'x) sub60_env \<Rightarrow> 'url sub60_cache \<Rightarrow> 'hash \<Rightarrow> 'narinfo \<Rightarrow>
     ('url, 'base) nar_upload_state \<Rightarrow> 'url net \<Rightarrow>
     (('url, 'x) cache_request_error + u64) outcome \<times> 'url net" where
  "sub60_upload_narinfo E c h narinfo st w =
     (let text = narinfo_str E narinfo; narinfo_size = of_nat (length text) in
      case narinfo_upload_url E c h (upload_id st) of
        None \<Rightarrow> (Panicked, w)
      | Some u \<Rightarrow>
          (case send E PUT u (as_bytes text) w of
             (Inl e, w') \<Rightarrow> (Done (Err e), w')
           | (Inr r, w') \<Rightarrow>
               (Done (if is_success (resp_status r) then Ok narinfo_size
                      else Err (unexpected_response E r PUT u)), w')))"

end
