(* ===== verification/Sub60_Correct.thy ===== *)
theory Sub60_Correct
  imports Sub60_Cache
begin

text \<open>
  What the client of the sub60 cache does, for every server: the parts of an upload are the
  consecutive chunks of the NAR, the upload is completed only after the whole NAR was sent and
  with the ETags the server gave, in order; part \<open>i\<close> goes to a URL the server issued for it;
  the loop of \<open>upload_nar\<close> ends if the server issues usable URLs, and ends well if it accepts
  every request.
\<close>

section \<open>Reading the log\<close>

function chunks :: "nat \<Rightarrow> bytes \<Rightarrow> bytes list" where
  "chunks n bs = (if n = 0 \<or> bs = [] then [] else take n bs # chunks n (drop n bs))"
  by pat_completeness auto
termination
  by (relation "measure (\<lambda>(n, bs). length bs)") auto

declare chunks.simps [simp del]

lemma chunks_Nil [simp]: "chunks n [] = []"
  by (simp add: chunks.simps)

lemma chunks_short: "bs \<noteq> [] \<Longrightarrow> length bs \<le> n \<Longrightarrow> chunks n bs = [bs]"
  by (cases bs) (simp_all add: chunks.simps)

lemma chunks_full: "0 < n \<Longrightarrow> n \<le> length bs \<Longrightarrow> chunks n bs = take n bs # chunks n (drop n bs)"
  by (subst chunks.simps) auto

lemma concat_chunks: "0 < n \<Longrightarrow> concat (chunks n bs) = bs"
  by (induction n bs rule: chunks.induct) (subst chunks.simps, auto)

lemma fill_buffer_length: "fill_buffer n r = (Filled bs, r') \<Longrightarrow> length bs \<le> n"
  by (auto dest: fill_buffer_Filled(1))

definition put_requests :: "'url request list \<Rightarrow> 'url request list" where
  "put_requests = filter (\<lambda>rq. req_method rq = PUT)"

definition put_bodies :: "'url request list \<Rightarrow> bytes list" where
  "put_bodies log = map req_body (put_requests log)"

lemma put_requests_simps [simp]:
  "put_requests [] = []"
  "put_requests (rq # log) = (if req_method rq = PUT then rq # put_requests log else put_requests log)"
  "put_requests (log @ log') = put_requests log @ put_requests log'"
  by (simp_all add: put_requests_def)

text \<open>The ETag the server answered to an upload, and those of a whole run of requests.\<close>

definition etag_answer ::
  "('url, 'path, 'base, 'hash, 'narinfo, 'etag, 'x) sub60_env \<Rightarrow> 'url request list \<Rightarrow> 'url request \<Rightarrow> 'etag list" where
  "etag_answer E log rq =
     (case fst (upload_part E (req_url rq) (req_body rq) \<lparr>sent = log, ticks = 0\<rparr>) of
        Inr etag \<Rightarrow> [etag] | Inl e \<Rightarrow> [])"

fun put_etags ::
  "('url, 'path, 'base, 'hash, 'narinfo, 'etag, 'x) sub60_env \<Rightarrow> 'url request list \<Rightarrow> 'url request list \<Rightarrow> 'etag list" where
  "put_etags E log [] = []"
| "put_etags E log (rq # rqs) =
     (if req_method rq = PUT then etag_answer E log rq else []) @ put_etags E (log @ [rq]) rqs"

section \<open>Single requests\<close>

abbreviation request :: "http_method \<Rightarrow> 'url \<Rightarrow> bytes \<Rightarrow> 'url request" where
  "request m u b \<equiv> \<lparr>req_method = m, req_url = u, req_body = b\<rparr>"

abbreviation log_request :: "'url request \<Rightarrow> 'url net \<Rightarrow> 'url net" where
  "log_request rq w \<equiv> w\<lparr>sent := sent w @ [rq]\<rparr>"

lemma post_checked_log:
  "post_checked E u b w = (a, w') \<Longrightarrow> w' = log_request (request POST u (as_bytes b)) w"
  by (auto simp: post_checked_def send_def Let_def split: prod.splits sum.splits if_splits)

lemma upload_part_log: "upload_part E u bs w = (a, w') \<Longrightarrow> w' = log_request (request PUT u bs) w"
  by (auto simp: upload_part_def send_def Let_def split: prod.splits sum.splits if_splits)

lemma upload_part_answer:
  "upload_part E u bs w = (Inr etag, w') \<Longrightarrow> etag_answer E (sent w) (request PUT u bs) = [etag]"
  by (auto simp: etag_answer_def upload_part_def send_def Let_def split: prod.splits sum.splits if_splits)

lemma request_part_urls_cases:
  assumes "request_part_urls E c uid ns base w = (out, w')"
  obtains (panic) "nar_multiparts_parts_url E c uid = None" "out = Panicked" "w' = w"
  | (sent) u res where "nar_multiparts_parts_url E c uid = Some u" "out = Done res"
      "w' = log_request (request POST u (as_bytes (parts_body_str E ns base))) w"
proof (cases "nar_multiparts_parts_url E c uid")
  case (Some u)
  with assms show ?thesis
    by (auto simp: request_part_urls_def split: prod.splits sum.splits dest!: post_checked_log intro: sent)
qed (use assms panic in \<open>auto simp: request_part_urls_def\<close>)

lemma complete_nar_upload_cases:
  assumes "complete_nar_upload E c uid etags base w = (out, w')"
  obtains (panic) "nar_multiparts_complete_url E c uid = None" "out = Panicked" "w' = w"
  | (sent) u res where "nar_multiparts_complete_url E c uid = Some u" "out = Done res"
      "w' = log_request (request POST u (as_bytes (complete_body_str E etags base))) w"
proof (cases "nar_multiparts_complete_url E c uid")
  case (Some u)
  with assms show ?thesis
    by (auto simp: complete_nar_upload_def split: prod.splits sum.splits dest!: post_checked_log intro: sent)
qed (use assms panic in \<open>auto simp: complete_nar_upload_def\<close>)

section \<open>One turn of the loop\<close>

definition same_upload :: "('url, 'base) nar_upload_state \<Rightarrow> ('url, 'base) nar_upload_state \<Rightarrow> bool" where
  "same_upload st st' \<longleftrightarrow>
     part_size st' = part_size st \<and> store_basename st' = store_basename st \<and> upload_id st' = upload_id st"

lemma same_upload_simps [simp]:
  "same_upload st st"
  "same_upload st (st'\<lparr>part_urls := us\<rparr>) = same_upload st st'"
  "same_upload st (st'\<lparr>urls_expiration_ts := ts\<rparr>) = same_upload st st'"
  "same_upload st (discard_expired t st)"
  by (auto simp: same_upload_def discard_expired_def)

lemma same_upload_trans: "same_upload a b \<Longrightarrow> same_upload b c \<Longrightarrow> same_upload a c"
  by (simp add: same_upload_def)

lemma discard_expired_simps [simp]:
  "part_size (discard_expired t st) = part_size st"
  "store_basename (discard_expired t st) = store_basename st"
  "upload_id (discard_expired t st) = upload_id st"
  by (simp_all add: discard_expired_def)

lemma checked_succ_Some: "checked_succ n = Some m \<Longrightarrow> unat m = Suc (unat n) \<and> unat n < 65535"
proof -
  assume a: "checked_succ n = Some m"
  then have "n \<noteq> - 1" "m = n + 1"
    by (auto simp: checked_succ_def split: if_splits)
  moreover from \<open>n \<noteq> - 1\<close> have "unat n \<noteq> unat (- 1 :: u16)"
    by (simp only: word_unat_eq_iff [symmetric] not_False_eq_True)
  moreover have "unat (- 1 :: u16) = 65535"
    by (simp add: unsigned_minus_1_eq_mask mask_eq_exp_minus_1)
  moreover have "unat n < 2 ^ LENGTH(16)"
    by (rule unsigned_less)
  ultimately show ?thesis
    by (simp add: unat_word_ariths)
qed

text \<open>Going round the loop: either new URLs were asked for, or a full part was uploaded.\<close>

lemma upload_turn_Continue:
  assumes "upload_turn E c v = Continue v'"
  obtains
    (refill) t u b parts where "nar_multiparts_parts_url E c (upload_id (v_state v)) = Some u"
      "now E (ticks (v_net v)) = Some t" "part_urls (discard_expired t (v_state v)) = []"
      "request_part_urls E c (upload_id (v_state v)) (successors 4 (Some (v_part_number v)))
         (store_basename (v_state v)) ((v_net v)\<lparr>ticks := ticks (v_net v) + 1\<rparr>) = (Done (Ok parts), v_net v')"
      "part_urls (v_state v') = pb_urls parts" "urls_expiration_ts (v_state v') = pb_expiration_ts parts"
      "sent (v_net v') = sent (v_net v) @ [request POST u b]"
      "v_part_number v' = v_part_number v" "v_etags v' = v_etags v" "v_reader v' = v_reader v"
      "same_upload (v_state v) (v_state v')"
  | (part) t u bs etag where "now E (ticks (v_net v)) = Some t"
      "part_urls (discard_expired t (v_state v)) = u # part_urls (v_state v')"
      "fill_buffer (unat (part_size (v_state v))) (v_reader v) = (Filled bs, v_reader v')"
      "length bs = unat (part_size (v_state v))" "bs \<noteq> []"
      "sent (v_net v') = sent (v_net v) @ [request PUT u bs]"
      "etag_answer E (sent (v_net v)) (request PUT u bs) = [etag]" "v_etags v' = v_etags v @ [etag]"
      "checked_succ (v_part_number v) = Some (v_part_number v')" "same_upload (v_state v) (v_state v')"
proof -
  obtain t where t: "now E (ticks (v_net v)) = Some t"
    using assms by (auto simp: upload_turn_def split: option.splits)
  show thesis
  proof (cases "part_urls (discard_expired t (v_state v))")
    case Nil
    let ?w = "(v_net v)\<lparr>ticks := ticks (v_net v) + 1\<rparr>"
    let ?rq = "request_part_urls E c (upload_id (v_state v)) (successors 4 (Some (v_part_number v)))
      (store_basename (v_state v)) ?w"
    obtain parts w1 where parts: "?rq = (Done (Ok parts), w1)"
      "v' = v\<lparr>v_state := (discard_expired t (v_state v))\<lparr>part_urls := pb_urls parts,
         urls_expiration_ts := pb_expiration_ts parts\<rparr>, v_net := w1\<rparr>"
      using assms t Nil
      by (auto simp: upload_turn_def refill_urls_def Let_def split: prod.splits outcome.splits sum.splits)
    from parts(1) show thesis
    proof (cases rule: request_part_urls_cases)
      case (sent u res)
      with t Nil parts show thesis
        by (intro refill) auto
    qed simp
  next
    case (Cons u us)
    with assms t show thesis
      by (auto simp: upload_turn_def push_part_def Let_def
          split: prod.splits fill_outcome.splits if_splits sum.splits option.splits
          intro!: part [of _ u _] dest: upload_part_log upload_part_answer fill_buffer_length)
  qed
qed

text \<open>
  Leaving the loop: either without having asked for completion, or having asked for it after
  the rest of the stream, shorter than a part, was uploaded.
\<close>

definition posts_only_for_urls ::
  "('url, 'path, 'base, 'hash, 'narinfo, 'etag, 'x) sub60_env \<Rightarrow> 'url sub60_cache \<Rightarrow> string \<Rightarrow>
     'url request list \<Rightarrow> bool" where
  "posts_only_for_urls E c uid log \<longleftrightarrow>
     (\<forall>rq \<in> set log. req_method rq \<noteq> PUT \<longrightarrow> nar_multiparts_parts_url E c uid = Some (req_url rq))"

lemma posts_only_simps [simp]:
  "posts_only_for_urls E c uid []"
  "posts_only_for_urls E c uid (rq # log) \<longleftrightarrow>
     (req_method rq \<noteq> PUT \<longrightarrow> nar_multiparts_parts_url E c uid = Some (req_url rq)) \<and>
     posts_only_for_urls E c uid log"
  by (auto simp: posts_only_for_urls_def)

lemma finish_upload_cases:
  assumes "finish_upload E c st etags w = (out, st', w')"
  obtains (panic) "out = Panicked" "st' = st" "w' = w"
  | (sent) u where "nar_multiparts_complete_url E c (upload_id st) = Some u" "st' = st"
      "w' = log_request (request POST u (as_bytes (complete_body_str E etags (store_basename st)))) w"
proof -
  have "complete_nar_upload E c (upload_id st) etags (store_basename st) w = (out, w')" "st' = st"
    using assms by (auto simp: finish_upload_def split: prod.splits)
  then show thesis
    by (cases rule: complete_nar_upload_cases) (auto intro: panic sent)
qed

lemma posts_only_puts: "put_requests puts = puts \<Longrightarrow> posts_only_for_urls E c uid puts"
  by (metis (mono_tags, lifting) filter_id_conv posts_only_for_urls_def put_requests_def)

text \<open>The last part, or none when the stream ended with the previous one, goes before the completion.\<close>

lemma push_part_last:
  assumes "push_part E c url v = Return (out, st', w')"
    and "fill_buffer (unat (part_size (v_state v))) (v_reader v) = (Filled bs, r)"
    and "upload_part E url bs (v_net v) = (a, w1)" "bs = [] \<or> a = Inr etag"
    and "length bs < unat (part_size (v_state v))"
  obtains puts w2 where "put_requests puts = puts" "sent w2 = sent (v_net v) @ puts"
      "put_bodies puts = chunks (unat (part_size (v_state v))) bs"
      "finish_upload E c (v_state v) (v_etags v @ put_etags E (sent (v_net v)) puts) w2 = (out, st', w')"
proof (cases "bs = []")
  case True
  with assms show thesis
    by (intro that [of "[]" "v_net v"]) (auto simp: push_part_def Let_def put_bodies_def)
next
  case False
  with assms(4) have a: "a = Inr etag" by simp
  have "etag_answer E (sent (v_net v)) (request PUT url bs) = [etag]"
    using upload_part_answer [OF assms(3) [unfolded a]] by simp
  moreover have "finish_upload E c (v_state v) (v_etags v @ [etag]) w1 = (out, st', w')"
    using assms False a by (simp add: push_part_def Let_def)
  ultimately show thesis
    using False assms(5) upload_part_log [OF assms(3)]
    by (intro that [of "[request PUT url bs]" w1]) (auto simp: put_bodies_def chunks_short)
qed

lemma push_part_Return:
  assumes "push_part E c url v = Return (out, st', w')" "0 < unat (part_size (v_state v))"
  obtains
    (stopped) log where "out \<noteq> Done (Ok ())" "sent w' = sent (v_net v) @ log"
      "posts_only_for_urls E c (upload_id (v_state v)) log"
  | (completed) puts u where
      "sr_live (v_reader v)" "length (sr_stream (v_reader v)) < unat (part_size (v_state v))"
      "put_bodies puts = chunks (unat (part_size (v_state v))) (sr_stream (v_reader v))"
      "put_requests puts = puts"
      "nar_multiparts_complete_url E c (upload_id (v_state v)) = Some u"
      "sent w' = sent (v_net v) @ puts @ [request POST u (as_bytes (complete_body_str E
         (v_etags v @ put_etags E (sent (v_net v)) puts) (store_basename (v_state v))))]"
proof -
  obtain f r where fb: "fill_buffer (unat (part_size (v_state v))) (v_reader v) = (f, r)"
    by (cases "fill_buffer (unat (part_size (v_state v))) (v_reader v)")
  show thesis
  proof (cases f)
    case (Filled bs)
    note fb = fb [unfolded Filled]
    obtain a w1 where up: "upload_part E url bs (v_net v) = (a, w1)"
      by fastforce
    show thesis
    proof (cases "length bs < unat (part_size (v_state v)) \<and> (bs = [] \<or> (\<exists>etag. a = Inr etag))")
      case True
      then obtain etag where e: "length bs < unat (part_size (v_state v))" "bs = [] \<or> a = Inr etag" by blast
      have whole: "sr_stream (v_reader v) = bs" "sr_live (v_reader v)"
        using e(1) fill_buffer_Filled(1) [OF fb] fill_buffer_Filled_live(2) [OF fb] by simp_all
      obtain puts w2 where puts: "put_requests puts = puts" "sent w2 = sent (v_net v) @ puts"
          "put_bodies puts = chunks (unat (part_size (v_state v))) bs"
        and fin: "finish_upload E c (v_state v) (v_etags v @ put_etags E (sent (v_net v)) puts) w2 = (out, st', w')"
        by (rule push_part_last [OF assms(1) fb up e(2,1)])
      from fin show thesis
      proof (cases rule: finish_upload_cases)
        case sent
        with puts whole e(1) show thesis by (intro completed [of puts]) auto
      qed (use stopped [of puts] puts posts_only_puts in auto)
    next
      case False
      with assms have "out \<noteq> Done (Ok ()) \<and> w' = w1"
        using fb up by (auto simp: push_part_def Let_def split: sum.splits option.splits if_splits)
      with upload_part_log [OF up] show thesis
        by (intro stopped [of "[request PUT url bs]"]) auto
    qed
  qed (use assms(1) fb stopped [of "[]"] in \<open>auto simp: push_part_def\<close>)
qed

lemma upload_turn_Return:
  assumes "upload_turn E c v = Return (out, st', w')" "0 < unat (part_size (v_state v))"
  obtains
    (stopped) log where "out \<noteq> Done (Ok ())" "sent w' = sent (v_net v) @ log"
      "posts_only_for_urls E c (upload_id (v_state v)) log"
  | (completed) puts u where
      "sr_live (v_reader v)" "length (sr_stream (v_reader v)) < unat (part_size (v_state v))"
      "put_bodies puts = chunks (unat (part_size (v_state v))) (sr_stream (v_reader v))"
      "put_requests puts = puts"
      "nar_multiparts_complete_url E c (upload_id (v_state v)) = Some u"
      "sent w' = sent (v_net v) @ puts @ [request POST u (as_bytes (complete_body_str E
         (v_etags v @ put_etags E (sent (v_net v)) puts) (store_basename (v_state v))))]"
proof -
  let ?w = "(v_net v)\<lparr>ticks := ticks (v_net v) + 1\<rparr>"
  consider (panic) "now E (ticks (v_net v)) = None"
    | (refill) t where "now E (ticks (v_net v)) = Some t" "part_urls (discard_expired t (v_state v)) = []"
    | (part) t url us where "now E (ticks (v_net v)) = Some t"
        "part_urls (discard_expired t (v_state v)) = url # us"
    by (metis neq_Nil_conv option.exhaust)
  then show thesis
  proof cases
    case panic
    with assms(1) show thesis
      by (intro stopped [of "[]"]) (auto simp: upload_turn_def)
  next
    case refill
    obtain o1 w1 where rq: "request_part_urls E c (upload_id (v_state v))
        (successors 4 (Some (v_part_number v))) (store_basename (v_state v)) ?w = (o1, w1)"
      by fastforce
    with refill assms(1) have "out \<noteq> Done (Ok ()) \<and> w' = w1"
      by (auto simp: upload_turn_def refill_urls_def Let_def split: outcome.splits sum.splits)
    with rq show thesis
      by (cases rule: request_part_urls_cases) (auto intro: stopped [of "[]"] stopped [of "[_]"])
  next
    case part
    let ?v = "v\<lparr>v_net := ?w, v_state := discard_expired t (v_state v)\<lparr>part_urls := us\<rparr>\<rparr>"
    have "push_part E c url ?v = Return (out, st', w')"
      using assms(1) part by (simp add: upload_turn_def Let_def)
    moreover have "0 < unat (part_size (v_state ?v))"
      using assms(2) by simp
    ultimately show thesis
    proof (cases rule: push_part_Return)
      case (stopped log)
      then show thesis by (intro that(1)) auto
    next
      case (completed puts u)
      then show thesis by (intro that(2)) auto
    qed
  qed
qed

section \<open>The whole loop\<close>

lemma upload_loop_induct [consumes 1, case_names Return Continue]:
  assumes "upload_loop E c v = Some res"
    and "\<And>v res. upload_turn E c v = Return res \<Longrightarrow> P v res"
    and "\<And>v v' res. upload_turn E c v = Continue v' \<Longrightarrow> P v' res \<Longrightarrow> P v res"
  shows "P v res"
proof -
  have "E' = E \<longrightarrow> c' = c \<longrightarrow> P v res" if "upload_loop E' c' v = Some res" for E' c' v res
    using that
    by (rule upload_loop.raw_induct [rotated])
      (use assms(2, 3) in \<open>auto split: turn.splits\<close>)
  with assms(1) show ?thesis by blast
qed

text \<open>
  What the requests \<open>log\<close> of an upload in progress say: a stream that was cut off is never
  completed; a successful upload sent the stream in chunks and completed it, last of all, with
  the ETags of all its parts, and there were at most 65535 of them.
\<close>

definition upload_post ::
  "('url, 'path, 'base, 'hash, 'narinfo, 'etag, 'x) sub60_env \<Rightarrow> 'url sub60_cache \<Rightarrow>
     ('url, 'base, 'etag) upload_vars \<Rightarrow> (('url, 'x) cache_request_error + unit) outcome \<Rightarrow>
     'url request list \<Rightarrow> bool" where
  "upload_post E c v out log \<longleftrightarrow>
     (let st = v_state v; ps = unat (part_size st); bs = sr_stream (v_reader v) in
      (\<not> sr_live (v_reader v) \<longrightarrow> out \<noteq> Done (Ok ()) \<and> posts_only_for_urls E c (upload_id st) log) \<and>
      (out = Done (Ok ()) \<longrightarrow>
         put_bodies log = chunks ps bs \<and> length bs < (65536 - unat (v_part_number v)) * ps \<and>
         (\<exists>u. nar_multiparts_complete_url E c (upload_id st) = Some u \<and> log \<noteq> [] \<and>
            last log = request POST u (as_bytes (complete_body_str E
              (v_etags v @ put_etags E (sent (v_net v)) log) (store_basename st))))))"

lemma put_etags_append: "put_etags E log (rqs @ rqs') = put_etags E log rqs @ put_etags E (log @ rqs) rqs'"
  by (induction rqs arbitrary: log) simp_all

lemma unat_u16_less: "unat (n :: u16) < 65536"
  using unsigned_less [of n] by simp

lemma upload_post_Return:
  assumes "upload_turn E c v = Return (out, st', w')" "0 < unat (part_size (v_state v))"
  shows "\<exists>log. sent w' = sent (v_net v) @ log \<and> upload_post E c v out log"
  using assms
proof (cases rule: upload_turn_Return)
  case (stopped log)
  then show ?thesis
    by (auto simp: upload_post_def Let_def)
next
  case (completed puts u)
  have "1 * unat (part_size (v_state v)) \<le> (65536 - unat (v_part_number v)) * unat (part_size (v_state v))"
    using unat_u16_less [of "v_part_number v"] by (intro mult_le_mono1) simp
  with completed(2) have "length (sr_stream (v_reader v)) < (65536 - unat (v_part_number v)) * unat (part_size (v_state v))"
    by linarith
  with completed show ?thesis
    by (auto simp: upload_post_def Let_def put_bodies_def put_etags_append)
qed

lemma upload_post_Continue:
  assumes "upload_turn E c v = Continue v'" "0 < unat (part_size (v_state v))"
    and "upload_post E c v' out log"
  shows "\<exists>log'. sent (v_net v') @ log = sent (v_net v) @ log' \<and> upload_post E c v out log'"
  using assms(1)
proof (cases rule: upload_turn_Continue)
  case (refill t u b parts)
  with assms(3) show ?thesis
    by (intro exI [of _ "request POST u b # log"])
      (auto simp: upload_post_def Let_def put_bodies_def same_upload_def)
next
  case (part t u bs etag)
  note fb = fill_buffer_Filled [OF part(3)] fill_buffer_Filled_live(1) [OF part(3)]
  have n: "unat (v_part_number v') = Suc (unat (v_part_number v))" "unat (v_part_number v) < 65535"
    using part(9) checked_succ_Some by blast+
  let ?ps = "unat (part_size (v_state v))"
  have "chunks ?ps (sr_stream (v_reader v)) = bs # chunks ?ps (sr_stream (v_reader v'))"
    using fb(1, 2) part(4) assms(2) by (subst chunks_full) (auto simp: min_def split: if_splits)
  moreover have "length (sr_stream (v_reader v)) = ?ps + length (sr_stream (v_reader v'))"
    using fb(6) part(4) by simp
  moreover have "65536 - unat (v_part_number v) = Suc (65536 - unat (v_part_number v'))"
    using n by linarith
  ultimately show ?thesis
    using assms(3) part fb(7)
    by (intro exI [of _ "request PUT u bs # log"])
      (auto simp: upload_post_def Let_def put_bodies_def same_upload_def)
qed

lemma upload_loop_post:
  assumes "upload_loop E c v = Some (out, st', w')" "0 < unat (part_size (v_state v))"
  shows "\<exists>log. sent w' = sent (v_net v) @ log \<and> upload_post E c v out log"
proof -
  have "0 < unat (part_size (v_state v)) \<longrightarrow>
      (\<exists>log. sent (snd (snd res)) = sent (v_net v) @ log \<and> upload_post E c v (fst res) log)"
    if "upload_loop E c v = Some res" for res
    using that
  proof (induction rule: upload_loop_induct)
    case (Return v res)
    then show ?case
      using upload_post_Return [of E c v "fst res" "fst (snd res)" "snd (snd res)"] by simp
  next
    case (Continue v v' res)
    have "part_size (v_state v') = part_size (v_state v)"
      using Continue.hyps by (cases rule: upload_turn_Continue) (auto simp: same_upload_def)
    with Continue show ?case
      using upload_post_Continue [of E c v v' "fst res"] by auto
  qed
  from this [OF assms(1)] assms(2) show ?thesis by simp
qed

section \<open>Part numbers and URLs\<close>

lemma successors_None [simp]: "successors k None = []"
  by (cases k) simp_all

lemma successors_4_nonempty: "successors 4 (Some n) \<noteq> []"
  by (simp add: numeral_eq_Suc)

lemma take_successors: "take j (successors k n) = successors (min j k) n"
  by (induction k n arbitrary: j rule: successors.induct) (auto simp: take_Cons' min_def Suc_le_eq gr0_conv_Suc)

lemma length_successors_le: "length (successors k n) \<le> k"
  by (induction k n rule: successors.induct) simp_all

text \<open>
  \<open>part_of\<close> is the part number the server issued a URL for. The queue of URLs is aligned
  when its URLs are for the next part numbers, in order.
\<close>

definition aligned :: "('url \<Rightarrow> u16) \<Rightarrow> u16 option \<Rightarrow> 'url list \<Rightarrow> bool" where
  "aligned part_of n urls \<longleftrightarrow> map part_of urls = successors (length urls) n"

definition issues_requested ::
  "('url, 'path, 'base, 'hash, 'narinfo, 'etag, 'x) sub60_env \<Rightarrow> ('url \<Rightarrow> u16) \<Rightarrow> bool" where
  "issues_requested E part_of \<longleftrightarrow>
     (\<forall>log u ns base resp t parts. ns \<noteq> [] \<longrightarrow>
        http E log (request POST u (as_bytes (parts_body_str E ns base))) = Ok resp \<longrightarrow>
        resp_text resp = Ok t \<longrightarrow> parse_parts_body E t = Ok parts \<longrightarrow>
        (\<exists>k. map part_of (pb_urls parts) = take k ns))"

lemma aligned_simps [simp]:
  "aligned part_of x []"
  "aligned part_of (Some n) (u # urls) \<longleftrightarrow> part_of u = n \<and> aligned part_of (checked_succ n) urls"
  by (simp_all add: aligned_def)

lemma aligned_discard: "aligned part_of n (part_urls st) \<Longrightarrow> aligned part_of n (part_urls (discard_expired t st))"
  by (simp add: discard_expired_def)

lemma issues_requested_aligned:
  assumes "issues_requested E part_of"
    and "request_part_urls E c uid (successors k n) base w = (Done (Ok parts), w')" "successors k n \<noteq> []"
  shows "aligned part_of n (pb_urls parts)"
proof -
  obtain u resp t where "nar_multiparts_parts_url E c uid = Some u"
    "http E (sent w) (request POST u (as_bytes (parts_body_str E (successors k n) base))) = Ok resp"
    "resp_text resp = Ok t" "parse_parts_body E t = Ok parts"
    using assms(2)
    by (auto simp: request_part_urls_def post_checked_def send_def Let_def
        split: option.splits prod.splits sum.splits if_splits)
  then obtain j where "map part_of (pb_urls parts) = take j (successors k n)"
    using assms(1, 3) unfolding issues_requested_def by blast
  then have j: "map part_of (pb_urls parts) = successors (min j k) n"
    by (simp add: take_successors)
  then have "map part_of (pb_urls parts) = take (length (pb_urls parts)) (successors (min j k) n)"
    by (metis length_map order_refl take_all)
  also have "\<dots> = successors (min (length (pb_urls parts)) (min j k)) n"
    by (rule take_successors)
  also have "min (length (pb_urls parts)) (min j k) = length (pb_urls parts)"
    using arg_cong [OF j, of length] length_successors_le [of "min j k" n] by simp
  finally show ?thesis
    by (simp only: aligned_def)
qed

lemma upload_turn_Return_puts:
  assumes "upload_turn E c v = Return (out, st', w')"
  obtains log where "sent w' = sent (v_net v) @ log" "put_requests log = []"
  | log t u us bs where "sent w' = sent (v_net v) @ log"
      "part_urls (discard_expired t (v_state v)) = u # us" "put_requests log = [request PUT u bs]"
proof -
  consider (panic) "now E (ticks (v_net v)) = None"
    | (refill) t where "now E (ticks (v_net v)) = Some t" "part_urls (discard_expired t (v_state v)) = []"
    | (part) t url us where "now E (ticks (v_net v)) = Some t"
        "part_urls (discard_expired t (v_state v)) = url # us"
    by (metis neq_Nil_conv option.exhaust)
  then show thesis
  proof cases
    case panic
    with assms that(1) [of "[]"] show thesis by (simp add: upload_turn_def)
  next
    case refill
    with assms that(1) [of "[]"] that(1) [of "[_]"] show thesis
      by (auto simp: upload_turn_def refill_urls_def Let_def
          split: prod.splits outcome.splits sum.splits elim!: request_part_urls_cases)
  next
    case part
    obtain log where "sent w' = sent (v_net v) @ log"
        "put_requests log = [] \<or> (\<exists>bs. put_requests log = [request PUT url bs])"
      using assms part
      by (auto simp: upload_turn_def push_part_def Let_def
          split: prod.splits fill_outcome.splits sum.splits if_splits option.splits
          dest!: upload_part_log elim!: finish_upload_cases)
    with part that show thesis by blast
  qed
qed

lemma upload_loop_aligned:
  assumes "upload_loop E c v = Some (out, st', w')" "issues_requested E part_of"
    and "aligned part_of (Some (v_part_number v)) (part_urls (v_state v))"
  shows "\<exists>log. sent w' = sent (v_net v) @ log \<and>
    aligned part_of (Some (v_part_number v)) (map req_url (put_requests log))"
proof -
  have "aligned part_of (Some (v_part_number v)) (part_urls (v_state v)) \<longrightarrow>
      (\<exists>log. sent (snd (snd res)) = sent (v_net v) @ log \<and>
         aligned part_of (Some (v_part_number v)) (map req_url (put_requests log)))"
    if "upload_loop E c v = Some res" for res
    using that
  proof (induction rule: upload_loop_induct)
    case (Return v res)
    then have "upload_turn E c v = Return (fst res, fst (snd res), snd (snd res))" by simp
    then show ?case
      by (cases rule: upload_turn_Return_puts)
        (auto dest: aligned_discard, metis aligned_discard aligned_simps list.simps(8,9) request.select_convs(2))
  next
    case (Continue v v' res)
    show ?case
    proof
      assume al: "aligned part_of (Some (v_part_number v)) (part_urls (v_state v))"
      from Continue.hyps show "\<exists>log. sent (snd (snd res)) = sent (v_net v) @ log \<and>
          aligned part_of (Some (v_part_number v)) (map req_url (put_requests log))"
      proof (cases rule: upload_turn_Continue)
        case (refill t u b parts)
        with Continue.IH issues_requested_aligned [OF assms(2) refill(4)] successors_4_nonempty obtain log
          where "sent (snd (snd res)) = sent (v_net v) @ request POST u b # log"
            "aligned part_of (Some (v_part_number v)) (map req_url (put_requests log))" by auto
        then show ?thesis by (intro exI [of _ "request POST u b # log"]) simp
      next
        case (part t u bs etag)
        with Continue.IH aligned_discard [OF al, of t] obtain log
          where "sent (snd (snd res)) = sent (v_net v) @ request PUT u bs # log" "part_of u = v_part_number v"
            "aligned part_of (checked_succ (v_part_number v)) (map req_url (put_requests log))" by auto
        then show ?thesis by (intro exI [of _ "request PUT u bs # log"]) simp
      qed
    qed
  qed
  from this [OF assms(1)] assms(3) show ?thesis by simp
qed

lemma successors_nth: "i < length (successors k (Some n)) \<Longrightarrow> unat (successors k (Some n) ! i) = unat n + i"
proof (induction i arbitrary: k n)
  case 0
  then show ?case by (cases k) auto
next
  case (Suc i)
  then obtain k' m where "k = Suc k'" "checked_succ n = Some m"
    by (cases k; cases "checked_succ n") auto
  with Suc checked_succ_Some [of n m] show ?case by auto
qed

lemma aligned_nth:
  assumes "aligned part_of (Some n) urls" "i < length urls"
  shows "unat (part_of (urls ! i)) = unat n + i"
proof -
  have *: "map part_of urls = successors (length urls) (Some n)"
    using assms(1) by (simp add: aligned_def)
  then have "i < length (successors (length urls) (Some n))"
    using assms(2) by (metis length_map)
  from successors_nth [OF this] * assms(2) show ?thesis
    by (metis nth_map)
qed

section \<open>Ending, and ending well\<close>

text \<open>
  What a server answers. \<open>parts_answer\<close>: the answer to a request is a success whose body is a
  list of part URLs; \<open>multiparts_answer\<close>: it is a success whose body describes a new upload;
  \<open>accepted\<close>: it is a success; \<open>etag_accepted\<close>: it is a success with an ETag.
\<close>

definition accepted ::
  "('url, 'path, 'base, 'hash, 'narinfo, 'etag, 'x) sub60_env \<Rightarrow> 'url request list \<Rightarrow> 'url request \<Rightarrow> bool" where
  "accepted E log rq \<longleftrightarrow> (\<exists>resp. http E log rq = Ok resp \<and> is_success (resp_status resp))"

definition etag_accepted ::
  "('url, 'path, 'base, 'hash, 'narinfo, 'etag, 'x) sub60_env \<Rightarrow> 'url request list \<Rightarrow> 'url request \<Rightarrow> bool" where
  "etag_accepted E log rq \<longleftrightarrow>
     (\<exists>resp h s etag. http E log rq = Ok resp \<and> is_success (resp_status resp) \<and> resp_etag resp = Some h \<and>
        header_to_str E h = Ok s \<and> quoted_from_str (parse_etag E) s = Ok etag)"

definition parts_answer ::
  "('url, 'path, 'base, 'hash, 'narinfo, 'etag, 'x) sub60_env \<Rightarrow> 'url request list \<Rightarrow> 'url request \<Rightarrow>
     'url parts_body \<Rightarrow> bool" where
  "parts_answer E log rq parts \<longleftrightarrow>
     (\<exists>resp t. http E log rq = Ok resp \<and> is_success (resp_status resp) \<and> resp_text resp = Ok t \<and>
        parse_parts_body E t = Ok parts)"

definition multiparts_answer ::
  "('url, 'path, 'base, 'hash, 'narinfo, 'etag, 'x) sub60_env \<Rightarrow> 'url request list \<Rightarrow> 'url request \<Rightarrow>
     'url multiparts_body \<Rightarrow> bool" where
  "multiparts_answer E log rq body \<longleftrightarrow>
     (\<exists>resp t. http E log rq = Ok resp \<and> is_success (resp_status resp) \<and> resp_text resp = Ok t \<and>
        parse_multiparts_body E t = Ok body)"

text \<open>
  \<open>fresh_urls\<close>: whenever the server answers a request for part URLs with a list of URLs, there
  is at least one and they expire after any time the client reads on its clock, skew included.
  \<open>cache_base\<close>: path segments can be added to the URL of the cache.
  \<open>issued_url\<close>: the server issued the URL, for a new upload or when asked for part URLs.
  \<open>accepts_all\<close>: the clock can be read, the server accepts every upload of a part to a URL it
  issued, with an ETag, and every NARInfo and every completion, and it answers every request for
  part URLs with a list.
\<close>

definition fresh_urls ::
  "('url, 'path, 'base, 'hash, 'narinfo, 'etag, 'x) sub60_env \<Rightarrow> 'url sub60_cache \<Rightarrow> bool" where
  "fresh_urls E c \<longleftrightarrow>
     (\<forall>log uid u b parts. nar_multiparts_parts_url E c uid = Some u \<longrightarrow>
        parts_answer E log (request POST u b) parts \<longrightarrow>
        pb_urls parts \<noteq> [] \<and> (\<forall>k t. now E k = Some t \<longrightarrow> t + CLOCK_SKEW_BUFFER < pb_expiration_ts parts))"

definition cache_base ::
  "('url, 'path, 'base, 'hash, 'narinfo, 'etag, 'x) sub60_env \<Rightarrow> 'url sub60_cache \<Rightarrow> bool" where
  "cache_base E c \<longleftrightarrow> (\<forall>ss. push_segments E (cache_url c) ss \<noteq> None)"

definition issued_url ::
  "('url, 'path, 'base, 'hash, 'narinfo, 'etag, 'x) sub60_env \<Rightarrow> 'url sub60_cache \<Rightarrow> 'url \<Rightarrow> bool" where
  "issued_url E c url \<longleftrightarrow>
     (\<exists>log v b body. nar_multiparts_url E c = Some v \<and> multiparts_answer E log (request POST v b) body \<and>
        url \<in> set (mb_parts_urls body)) \<or>
     (\<exists>log uid v b parts. nar_multiparts_parts_url E c uid = Some v \<and> parts_answer E log (request POST v b) parts \<and>
        url \<in> set (pb_urls parts))"

definition accepts_all ::
  "('url, 'path, 'base, 'hash, 'narinfo, 'etag, 'x) sub60_env \<Rightarrow> 'url sub60_cache \<Rightarrow> bool" where
  "accepts_all E c \<longleftrightarrow>
     (\<forall>k. now E k \<noteq> None) \<and> cache_base E c \<and>
     (\<forall>log u b. issued_url E c u \<longrightarrow> etag_accepted E log (request PUT u b)) \<and>
     (\<forall>log uid u b. nar_multiparts_parts_url E c uid = Some u \<longrightarrow> (\<exists>parts. parts_answer E log (request POST u b) parts)) \<and>
     (\<forall>log uid u b. nar_multiparts_complete_url E c uid = Some u \<longrightarrow> accepted E log (request POST u b)) \<and>
     (\<forall>log h uid u b. narinfo_upload_url E c h uid = Some u \<longrightarrow> accepted E log (request PUT u b))"

lemma request_part_urls_answer:
  assumes "request_part_urls E c uid ns base w = (Done (Ok parts), w')"
  obtains u where "nar_multiparts_parts_url E c uid = Some u"
    "parts_answer E (sent w) (request POST u (as_bytes (parts_body_str E ns base))) parts"
  using assms
  by (auto simp: request_part_urls_def post_checked_def send_def Let_def parts_answer_def
      split: option.splits prod.splits sum.splits if_splits)

lemma push_segments_append:
  "push_segments E u (ss @ ts) = Option.bind (push_segments E u ss) (\<lambda>v. push_segments E v ts)"
  by (induction ss arbitrary: u) (auto split: option.splits)

lemma cache_base_urls:
  assumes "cache_base E c"
  obtains (urls) m n pu cu where "nar_multiparts_url E c = Some m" "narinfo_url E c h = Some n"
    "nar_multiparts_parts_url E c uid = Some pu" "nar_multiparts_complete_url E c uid = Some cu"
proof -
  have some: "\<exists>v. push_segments E (cache_url c) ss = Some v" for ss
    using assms by (simp add: cache_base_def)
  have "nar_multiparts_parts_url E c uid = push_segments E (cache_url c) ([''nar-multiparts''] @ [uid, ''parts''])"
    "nar_multiparts_complete_url E c uid = push_segments E (cache_url c) ([''nar-multiparts''] @ [uid, ''complete''])"
    unfolding push_segments_append nar_multiparts_parts_url_def nar_multiparts_complete_url_def nar_multiparts_url_def
    by simp_all
  then show thesis
    using some urls by (metis nar_multiparts_url_def narinfo_url_def)
qed

definition needs_refill ::
  "('url, 'path, 'base, 'hash, 'narinfo, 'etag, 'x) sub60_env \<Rightarrow> ('url, 'base, 'etag) upload_vars \<Rightarrow> bool" where
  "needs_refill E v \<longleftrightarrow>
     (\<exists>t. now E (ticks (v_net v)) = Some t \<and> part_urls (discard_expired t (v_state v)) = [])"

definition turns_left ::
  "('url, 'path, 'base, 'hash, 'narinfo, 'etag, 'x) sub60_env \<Rightarrow> ('url, 'base, 'etag) upload_vars \<Rightarrow> nat" where
  "turns_left E v = 2 * (65536 - unat (v_part_number v)) + (if needs_refill E v then 1 else 0)"

lemma turns_left_decreases:
  assumes "upload_turn E c v = Continue v'" "fresh_urls E c"
  shows "turns_left E v' < turns_left E v"
  using assms(1)
proof (cases rule: upload_turn_Continue)
  case (refill t u b parts)
  from refill(4) have "pb_urls parts \<noteq> []"
    "\<And>k t. now E k = Some t \<Longrightarrow> t + CLOCK_SKEW_BUFFER < pb_expiration_ts parts"
    using assms(2) unfolding fresh_urls_def by (meson request_part_urls_answer)+
  with refill(5, 6) have "\<not> needs_refill E v'"
    by (auto simp: needs_refill_def discard_expired_def simp flip: not_less)
  moreover from refill have "needs_refill E v"
    by (auto simp: needs_refill_def)
  ultimately show ?thesis
    using refill by (simp add: turns_left_def)
next
  case (part t u bs etag)
  with checked_succ_Some [OF part(9)] show ?thesis
    by (auto simp: turns_left_def)
qed

lemma upload_loop_terminates:
  assumes "fresh_urls E c"
  shows "\<exists>res. upload_loop E c v = Some res"
proof (induction "turns_left E v" arbitrary: v rule: less_induct)
  case less
  show ?case
  proof (cases "upload_turn E c v")
    case (Continue v')
    with less turns_left_decreases [OF Continue assms] show ?thesis
      by (simp add: upload_loop.simps)
  next
    case (Return res)
    then show ?thesis
      by (cases res) (simp add: upload_loop.simps)
  qed
qed

text \<open>The loop waits for nothing but a stream that is still open.\<close>

lemma upload_turn_blocked:
  "upload_turn E c v = Return (Blocked, st', w') \<Longrightarrow> \<not> r_closed (v_reader v)"
  by (auto simp: upload_turn_def refill_urls_def push_part_def finish_upload_def Let_def
      split: option.splits list.splits prod.splits outcome.splits sum.splits fill_outcome.splits if_splits
      elim: request_part_urls_cases complete_nar_upload_cases dest: fill_buffer_blocked)

lemma upload_turn_closed: "upload_turn E c v = Continue v' \<Longrightarrow> r_closed (v_reader v') = r_closed (v_reader v)"
  by (cases rule: upload_turn_Continue) (auto dest: fill_buffer_Filled(3))

lemma sub60_upload_nar_blocked:
  "sub60_upload_nar E c st r w = Some (Blocked, st', w') \<Longrightarrow> \<not> r_closed r"
proof -
  have "fst res = Blocked \<longrightarrow> \<not> r_closed (v_reader v)" if "upload_loop E c v = Some res" for v res
    using that
  proof (induction rule: upload_loop_induct)
    case (Return v res)
    then show ?case
      using upload_turn_blocked [of E c v "fst (snd res)" "snd (snd res)"] by (cases res) auto
  qed (use upload_turn_closed in auto)
  then show "sub60_upload_nar E c st r w = Some (Blocked, st', w') \<Longrightarrow> \<not> r_closed r"
    by (fastforce simp: sub60_upload_nar_def)
qed

lemma accepts_all_requests:
  assumes "accepts_all E c"
  shows "\<exists>parts w'. request_part_urls E c uid ns base w = (Done (Ok parts), w')"
    and "\<exists>w'. complete_nar_upload E c uid etags base w = (Done (Ok ()), w')"
    and "issued_url E c u \<Longrightarrow> \<exists>etag w'. upload_part E u bs w = (Ok etag, w')"
proof -
  have "cache_base E c"
    using assms by (simp add: accepts_all_def)
  then obtain pu cu where urls: "nar_multiparts_parts_url E c uid = Some pu"
      "nar_multiparts_complete_url E c uid = Some cu"
    by (rule cache_base_urls)
  obtain parts where "parts_answer E (sent w) (request POST pu (as_bytes (parts_body_str E ns base))) parts"
    using assms urls(1) unfolding accepts_all_def by meson
  with urls(1) show "\<exists>parts w'. request_part_urls E c uid ns base w = (Done (Ok parts), w')"
    by (auto simp: parts_answer_def request_part_urls_def post_checked_def send_def Let_def)
  have "accepted E (sent w) (request POST cu (as_bytes (complete_body_str E etags base)))"
    using assms urls(2) unfolding accepts_all_def by meson
  with urls(2) show "\<exists>w'. complete_nar_upload E c uid etags base w = (Done (Ok ()), w')"
    by (auto simp: accepted_def complete_nar_upload_def post_checked_def send_def Let_def)
  assume "issued_url E c u"
  then have "etag_accepted E (sent w) (request PUT u bs)"
    using assms unfolding accepts_all_def by meson
  then show "\<exists>etag w'. upload_part E u bs w = (Ok etag, w')"
    by (auto simp: etag_accepted_def upload_part_def send_def Let_def)
qed

text \<open>The URLs in the queue were issued by the server.\<close>

definition urls_issued ::
  "('url, 'path, 'base, 'hash, 'narinfo, 'etag, 'x) sub60_env \<Rightarrow> 'url sub60_cache \<Rightarrow>
     ('url, 'base) nar_upload_state \<Rightarrow> bool" where
  "urls_issued E c st \<longleftrightarrow> (\<forall>u \<in> set (part_urls st). issued_url E c u)"

lemma urls_issued_discard: "urls_issued E c st \<Longrightarrow> urls_issued E c (discard_expired t st)"
  by (simp add: urls_issued_def discard_expired_def)

lemma urls_issued_turn:
  assumes "upload_turn E c v = Continue v'" "urls_issued E c (v_state v)"
  shows "urls_issued E c (v_state v')"
  using assms(1)
proof (cases rule: upload_turn_Continue)
  case (refill t u b parts)
  from refill(4) have "issued_url E c url" if "url \<in> set (pb_urls parts)" for url
    using that unfolding issued_url_def by (meson request_part_urls_answer)
  with refill(5) show ?thesis by (simp add: urls_issued_def)
next
  case (part t u bs etag)
  with urls_issued_discard [OF assms(2), of t] show ?thesis by (simp add: urls_issued_def)
qed

text \<open>One turn over a stream that ends, against a server that accepts everything.\<close>

lemma push_part_accepted:
  assumes "accepts_all E c" "issued_url E c url" "sr_live (v_reader v)" "push_part E c url v = Return (out, st', w')"
    and "length (sr_stream (v_reader v)) < (65536 - unat (v_part_number v)) * unat (part_size (v_state v))"
  shows "out = Done (Ok ())"
proof -
  let ?ps = "unat (part_size (v_state v))" let ?bs = "take ?ps (sr_stream (v_reader v))"
  obtain r where fb: "fill_buffer ?ps (v_reader v) = (Filled ?bs, r)"
    using fill_buffer_live [OF assms(3)] by blast
  obtain etag w1 where up: "upload_part E url ?bs (v_net v) = (Ok etag, w1)"
    using accepts_all_requests(3) [OF assms(1, 2)] by blast
  have fin: "fst (finish_upload E c (v_state v) etags w) = Done (Ok ())" for etags w
    using accepts_all_requests(2) [OF assms(1), of "upload_id (v_state v)" etags "store_basename (v_state v)" w]
    by (auto simp: finish_upload_def)
  have "\<exists>n. checked_succ (v_part_number v) = Some n" if "?ps \<le> length (sr_stream (v_reader v))"
  proof (rule ccontr)
    assume "\<not> ?thesis"
    then have "v_part_number v = - 1"
      by (auto simp: checked_succ_def split: if_splits)
    then have "unat (v_part_number v) = 65535"
      by (simp add: unsigned_minus_1_eq_mask mask_eq_exp_minus_1)
    with assms(5) that show False by simp
  qed
  with assms(4) fb up fin [of "v_etags v" "v_net v"] fin [of "v_etags v @ [etag]" w1] show ?thesis
    by (auto simp: push_part_def Let_def min_def not_less split: if_splits option.splits)
qed

lemma upload_turn_accepted:
  assumes "accepts_all E c" "urls_issued E c (v_state v)" "sr_live (v_reader v)"
    and "upload_turn E c v = Return (out, st', w')"
    and "length (sr_stream (v_reader v)) < (65536 - unat (v_part_number v)) * unat (part_size (v_state v))"
  shows "out = Done (Ok ())"
proof -
  obtain t where t: "now E (ticks (v_net v)) = Some t"
    using assms(1) unfolding accepts_all_def by blast
  show ?thesis
  proof (cases "part_urls (discard_expired t (v_state v))")
    case Nil
    with t assms(4) accepts_all_requests(1) [OF assms(1), of "upload_id (v_state v)"
        "successors 4 (Some (v_part_number v))" "store_basename (v_state v)"
        "(v_net v)\<lparr>ticks := ticks (v_net v) + 1\<rparr>"] show ?thesis
      by (auto simp: upload_turn_def refill_urls_def Let_def)
  next
    case (Cons url us)
    then have "issued_url E c url"
      using urls_issued_discard [OF assms(2), of t] by (simp add: urls_issued_def)
    with Cons t assms show ?thesis
      by (auto simp: upload_turn_def Let_def elim!: push_part_accepted [rotated 3])
  qed
qed

lemma upload_loop_accepted:
  assumes "upload_loop E c v = Some (out, st', w')" "accepts_all E c" "urls_issued E c (v_state v)"
    and "sr_live (v_reader v)"
    and "length (sr_stream (v_reader v)) < (65536 - unat (v_part_number v)) * unat (part_size (v_state v))"
  shows "out = Done (Ok ())"
proof -
  have "urls_issued E c (v_state v) \<longrightarrow> sr_live (v_reader v) \<longrightarrow>
      length (sr_stream (v_reader v)) < (65536 - unat (v_part_number v)) * unat (part_size (v_state v)) \<longrightarrow>
      fst res = Done (Ok ())" if "upload_loop E c v = Some res" for res
    using that
  proof (induction rule: upload_loop_induct)
    case (Return v res)
    with upload_turn_accepted [OF assms(2), of v "fst res" "fst (snd res)" "snd (snd res)"] show ?case
      by simp
  next
    case (Continue v v' res)
    note issued = urls_issued_turn [OF Continue.hyps]
    from Continue.hyps show ?case
    proof (cases rule: upload_turn_Continue)
      case (refill t u b parts)
      with Continue.IH issued show ?thesis by (simp add: same_upload_def)
    next
      case (part t u bs etag)
      have "unat (v_part_number v') = Suc (unat (v_part_number v))" "unat (v_part_number v) < 65535"
        using part(9) checked_succ_Some by blast+
      then have "65536 - unat (v_part_number v) = Suc (65536 - unat (v_part_number v'))"
        by linarith
      with Continue.IH issued part fill_buffer_Filled(6) [OF part(3)] fill_buffer_Filled_live(1) [OF part(3)]
      show ?thesis by (simp add: same_upload_def)
    qed
  qed
  from this [OF assms(1)] assms(3-5) show ?thesis by simp
qed

lemma sub60_upload_nar_accepted:
  assumes "accepts_all E c" "fresh_urls E c" "urls_issued E c st" "sr_live r"
    and "length (sr_stream r) < 65535 * unat (part_size st)"
  shows "\<exists>st' w'. sub60_upload_nar E c st r w = Some (Done (Ok ()), st', w')"
proof -
  obtain out st' w' where res: "sub60_upload_nar E c st r w = Some (out, st', w')"
    using upload_loop_terminates [OF assms(2)] unfolding sub60_upload_nar_def by (metis prod_cases3)
  with upload_loop_accepted [OF res [unfolded sub60_upload_nar_def] assms(1)] assms(3-5) show ?thesis
    by simp
qed








section \<open>A sample server\<close>

text \<open>
  It has no NARInfo yet, accepts every upload, issues one URL at a time, named by its part number, and answers
  an upload with an ETag made of the number of requests before it.
\<close>

definition enc16 :: "u16 \<Rightarrow> string" where
  "enc16 n = [char_of (unat n div 256), char_of (unat n mod 256)]"

definition dec16 :: "string \<Rightarrow> u16" where
  "dec16 s = of_nat (256 * of_char (s ! 0) + of_char (s ! 1))"

definition sample_answer :: "string request list \<Rightarrow> string request \<Rightarrow> string response" where
  "sample_answer log rq =
     \<lparr>resp_status = (if req_method rq = HEAD then 404 else 200), resp_etag = Some [0x22, of_nat (48 + length log), 0x22],
      resp_text = Ok (str_of_bytes (req_body rq))\<rparr>"

definition sample_cloud :: "(string, string, string, string, string, string, string) sub60_env" where
  "sample_cloud =
     \<lparr>http = (\<lambda>log rq. Ok (sample_answer log rq)), now = (\<lambda>k. Some 0), show_x = (\<lambda>x. x),
      build_client = Ok (), base_url = ''https://cache.sub60.dev'',
      push_segment = (\<lambda>u s. Some (u @ ''/'' @ s)), append_upload_id = (\<lambda>u s. u @ ''?upload_id='' @ s),
      path_basename = (\<lambda>p. p), basename_str = (\<lambda>b. b), narinfo_filename_str = (\<lambda>h. h @ ''.narinfo''),
      narinfo_str = (\<lambda>n. n), complete_body_str = (\<lambda>etags b. concat etags @ b),
      parts_body_str = (\<lambda>ns b. concat (map enc16 ns) @ b),
      parse_multiparts_body = (\<lambda>s. Ok \<lparr>mb_part_size = 2, mb_parts_urls = [], mb_upload_id = s, mb_expiration_ts = 0\<rparr>),
      parse_parts_body = (\<lambda>s. Ok \<lparr>pb_urls = [take 2 s], pb_expiration_ts = 2 * CLOCK_SKEW_BUFFER\<rparr>),
      header_to_str = (\<lambda>h. Ok (str_of_bytes h)), parse_etag = (\<lambda>s. Ok s)\<rparr>"

definition sample_cache :: "string sub60_cache" where
  "sample_cache = \<lparr>cache_url = ''u''\<rparr>"

definition sample_state :: "(string, string) nar_upload_state" where
  "sample_state =
     \<lparr>part_size = 2, part_urls = [], store_basename = ''b'', upload_id = ''i'', urls_expiration_ts = 0\<rparr>"

definition sample_nar :: script_reader where
  "sample_nar = \<lparr>r_script = [Chunk [1], RStall, Chunk [2, 3]], r_closed = True\<rparr>"

definition no_requests :: "string net" where
  "no_requests = \<lparr>sent = [], ticks = 0\<rparr>"

definition sample_requests :: "string request list" where
  "sample_requests =
     [request POST ''u/nar-multiparts/i/parts'' [0, 1, 0, 2, 0, 3, 0, 4, 0x62],
      request PUT (enc16 1) [1, 2],
      request POST ''u/nar-multiparts/i/parts'' [0, 2, 0, 3, 0, 4, 0, 5, 0x62],
      request PUT (enc16 2) [3],
      request POST ''u/nar-multiparts/i/complete'' (as_bytes ''13b'')]"

lemma sample_upload:
  "sub60_upload_nar sample_cloud sample_cache sample_state sample_nar no_requests =
     Some (Done (Ok ()), sample_state\<lparr>urls_expiration_ts := 2 * CLOCK_SKEW_BUFFER\<rparr>,
       \<lparr>sent = sample_requests, ticks = 4\<rparr>)"
  by code_simp

lemma char_of_34: "char_of (34 :: nat) = CHR 0x22"
  by code_simp

lemmas answer_simps = accepts_all_def accepted_def etag_accepted_def parts_answer_def multiparts_answer_def
  fresh_urls_def

lemmas accept_simps = answer_simps sample_cloud_def sample_answer_def is_success_def
  quoted_from_str_def str_of_bytes_def strip_suffix_def char_of_34 CLOCK_SKEW_BUFFER_def

lemma push_segments_total: "(\<And>u s. push_segment E u s \<noteq> None) \<Longrightarrow> cache_base E c"
proof -
  assume seg: "\<And>u s. push_segment E u s \<noteq> None"
  have "push_segments E u ss \<noteq> None" for u ss
    using seg by (induction ss arbitrary: u) (auto split: option.splits)
  then show ?thesis by (simp add: cache_base_def)
qed

lemma sample_accepts: "accepts_all sample_cloud c"
  using push_segments_total [of sample_cloud c] by (simp add: accept_simps)

lemma sample_fresh: "fresh_urls sample_cloud c"
  by (simp add: accept_simps)

lemma dec16_enc16: "dec16 (enc16 n @ s) = n"
proof -
  have "unat n div 256 < 256"
    using unat_u16_less [of n] by (simp add: less_mult_imp_div_less)
  then show ?thesis
    by (simp add: dec16_def enc16_def)
qed

lemma sample_issues: "issues_requested sample_cloud dec16"
proof -
  have "dec16 (take 2 (concat (map enc16 ns) @ b)) = hd ns" if "ns \<noteq> []" for ns b
    using that dec16_enc16 [of "hd ns" "[]"] by (cases ns) (simp_all add: enc16_def)
  then show ?thesis
    by (auto simp: issues_requested_def sample_cloud_def sample_answer_def take_Suc intro!: exI [of _ 1])
qed

section \<open>Properties\<close>

text \<open>
  C6: When \<open>upload_nar\<close> returns \<open>Ok\<close>, the stream had ended cleanly, the bodies it \<open>PUT\<close> are
  the consecutive chunks of the NAR, each of the part size but the last, so that together they
  are the NAR; its last request asks for completion, with the ETags the server answered to
  these uploads, in order; and there were fewer than 65535 full parts.
\<close>

theorem upload_nar_sends_whole_nar:
  assumes "sub60_upload_nar E c st r w = Some (Done (Ok ()), st', w')" "part_size st \<noteq> 0"
  shows "\<exists>log u. sent w' = sent w @ log \<and> sr_live r \<and>
    put_bodies log = chunks (unat (part_size st)) (sr_stream r) \<and>
    concat (put_bodies log) = sr_stream r \<and>
    length (sr_stream r) < 65535 * unat (part_size st) \<and>
    nar_multiparts_complete_url E c (upload_id st) = Some u \<and> log \<noteq> [] \<and>
    last log = request POST u (as_bytes (complete_body_str E (put_etags E (sent w) log) (store_basename st)))"
proof -
  have "0 < unat (part_size st)"
    using assms(2) by (simp add: unat_gt_0)
  with upload_loop_post [OF assms(1) [unfolded sub60_upload_nar_def]] show ?thesis
    by (auto simp: upload_post_def Let_def concat_chunks)
qed

theorem upload_nar_sends_whole_nar_witness:
  "\<exists>log u. sample_requests = [] @ log \<and> sr_live sample_nar \<and> put_bodies log = chunks 2 [1, 2, 3] \<and>
    concat (put_bodies log) = [1, 2, 3] \<and> length (sr_stream sample_nar) < 65535 * 2 \<and>
    nar_multiparts_complete_url sample_cloud sample_cache ''i'' = Some u \<and> log \<noteq> [] \<and>
    last log = request POST u (as_bytes (complete_body_str sample_cloud (put_etags sample_cloud [] log) ''b''))"
  using upload_nar_sends_whole_nar [OF sample_upload]
  by (simp add: sample_state_def no_requests_def sample_nar_def sr_stream_def concat_chunks)

text \<open>
  C20: A NAR that was cut off is never completed: when the stream is still open, or fails,
  \<open>upload_nar\<close> does not return \<open>Ok\<close>, and apart from uploads of parts it only asks for part
  URLs.
\<close>

theorem truncated_nar_never_completed:
  assumes "sub60_upload_nar E c st r w = Some (out, st', w')" "\<not> sr_live r" "part_size st \<noteq> 0"
  shows "out \<noteq> Done (Ok ()) \<and> (\<exists>log. sent w' = sent w @ log \<and> posts_only_for_urls E c (upload_id st) log)"
proof -
  have "0 < unat (part_size st)"
    using assms(3) by (simp add: unat_gt_0)
  with upload_loop_post [OF assms(1) [unfolded sub60_upload_nar_def]] assms(2) show ?thesis
    by (auto simp: upload_post_def Let_def)
qed

definition open_nar :: script_reader where
  "open_nar = sample_nar\<lparr>r_closed := False\<rparr>"

lemma open_upload:
  "sub60_upload_nar sample_cloud sample_cache sample_state open_nar no_requests =
     Some (Blocked, sample_state\<lparr>urls_expiration_ts := 2 * CLOCK_SKEW_BUFFER\<rparr>,
       \<lparr>sent = take 3 sample_requests, ticks = 4\<rparr>)"
  by code_simp

theorem truncated_nar_never_completed_witness:
  "(Blocked :: ((string, string) cache_request_error + unit) outcome) \<noteq> Done (Ok ()) \<and>
     (\<exists>log. take 3 sample_requests = [] @ log \<and> posts_only_for_urls sample_cloud sample_cache ''i'' log)"
  using truncated_nar_never_completed [OF open_upload]
  by (simp add: sample_state_def no_requests_def open_nar_def sr_live_def)

text \<open>
  Against a server that accepts every request and issues usable URLs, \<open>upload_nar\<close> of any
  NAR of fewer than 65535 full parts, from a stream that ends cleanly, returns \<open>Ok\<close>.
\<close>

theorem upload_nar_succeeds:
  assumes "accepts_all E c" "fresh_urls E c" "urls_issued E c st" "sr_live r"
    and "length (sr_stream r) < 65535 * unat (part_size st)"
  shows "\<exists>st' w'. sub60_upload_nar E c st r w = Some (Done (Ok ()), st', w')"
  by (rule sub60_upload_nar_accepted [OF assms])

theorem upload_nar_succeeds_witness:
  "\<exists>st' w'. sub60_upload_nar sample_cloud sample_cache sample_state sample_nar no_requests =
     Some (Done (Ok ()), st', w')"
  using upload_nar_succeeds [OF sample_accepts sample_fresh, of sample_cache sample_state sample_nar]
  by (simp add: sample_nar_def sr_live_def sample_state_def sr_stream_def urls_issued_def)

text \<open>
  C21: \<open>upload_nar\<close> of a stream that is closed ends, with a value or a panic, whatever the stream
  holds and whether or not the server accepts the uploads, as long as the URLs it issues are
  usable: after at most 65535 full parts it gives up. The loop itself ends for every stream; the
  only thing \<open>upload_nar\<close> can wait for is more of a stream that is still open.
\<close>

theorem upload_nar_terminates:
  assumes "fresh_urls E c"
  shows "\<exists>out st' w'. sub60_upload_nar E c st r w = Some (out, st', w') \<and> (r_closed r \<longrightarrow> out \<noteq> Blocked)"
proof -
  obtain out st' w' where "sub60_upload_nar E c st r w = Some (out, st', w')"
    using upload_loop_terminates [OF assms] unfolding sub60_upload_nar_def by (metis prod_cases3)
  with sub60_upload_nar_blocked show ?thesis by blast
qed

theorem upload_nar_terminates_witness:
  "\<exists>out st' w'. sub60_upload_nar sample_cloud sample_cache sample_state sample_nar no_requests = Some (out, st', w') \<and>
     out \<noteq> Blocked"
  using upload_nar_terminates [OF sample_fresh, of sample_cache sample_state sample_nar no_requests]
  by (simp add: sample_nar_def)




text \<open>
  C19: Part number \<open>i\<close> is uploaded to a URL the server issued for part number \<open>i\<close>, however
  often URLs run out or expire, for a server that issues URLs for the part numbers it was asked
  for, in order.
\<close>

theorem part_goes_to_its_url:
  assumes "sub60_upload_nar E c st r w = Some (out, st', w')" "issues_requested E part_of"
    and "aligned part_of (Some 1) (part_urls st)"
  shows "\<exists>log. sent w' = sent w @ log \<and>
    (\<forall>i < length (put_requests log). unat (part_of (req_url (put_requests log ! i))) = i + 1)"
proof -
  obtain log where "sent w' = sent w @ log" "aligned part_of (Some 1) (map req_url (put_requests log))"
    using upload_loop_aligned [OF assms(1) [unfolded sub60_upload_nar_def] assms(2)] assms(3) by auto
  with aligned_nth [of part_of 1 "map req_url (put_requests log)"] show ?thesis
    by auto
qed

theorem part_goes_to_its_url_witness:
  "\<exists>log. sample_requests = [] @ log \<and>
    (\<forall>i < length (put_requests log). unat (dec16 (req_url (put_requests log ! i))) = i + 1)"
  using part_goes_to_its_url [OF sample_upload sample_issues]
  by (simp add: sample_state_def no_requests_def)

text \<open>
  A quoted header value is accepted exactly when it is a parsable value between two double
  quotes: a single quotation mark is not taken for both.
\<close>

theorem quoted_from_str_iff:
  "quoted_from_str parse s = Ok x \<longleftrightarrow> (\<exists>t. s = CHR 0x22 # t @ [CHR 0x22] \<and> parse t = Ok x)"
proof (cases s)
  case (Cons a s')
  then show ?thesis
    by (cases s' rule: rev_cases) (auto simp: quoted_from_str_def strip_suffix_def)
qed (simp add: quoted_from_str_def)

end
