(* ===== verification/Caches.thy ===== *)
theory Caches
  imports Sub60_Correct
begin

text \<open>
  \<open>src/context.rs\<close> (the \<open>Cache\<close> trait), \<open>src/noop_cache.rs\<close> and \<open>src/any_cache.rs\<close>. The
  trait is a record of its four operations over a state \<open>'s\<close> of the outside world; the caches
  are values of it. What every cache promises to \<open>handle_store_path\<close> is the locale
  \<open>cache_contract\<close>, interpreted on each of the three caches.
\<close>

section \<open>The trait\<close>

text \<open>\<open>upload_nar\<close> may run for ever, which is \<open>None\<close>.\<close>

record ('hash, 'path, 'narinfo, 'st, 'e, 's) cache_ops =
  has_narinfo :: "'hash \<Rightarrow> 's \<Rightarrow> ('e + bool) outcome \<times> 's"
  initiate_nar_upload :: "'path \<Rightarrow> 's \<Rightarrow> ('e + 'st) outcome \<times> 's"
  upload_nar :: "'st \<Rightarrow> script_reader \<Rightarrow> 's \<Rightarrow> (('e + unit) outcome \<times> 'st \<times> 's) option"
  upload_narinfo :: "'hash \<Rightarrow> 'narinfo \<Rightarrow> 'st \<Rightarrow> 's \<Rightarrow> ('e + u64) outcome \<times> 's"

fun map_ok :: "('a \<Rightarrow> 'b) \<Rightarrow> 'e + 'a \<Rightarrow> 'e + 'b" where
  "map_ok f (Inl e) = Inl e"
| "map_ok f (Inr x) = Inr (f x)"

lemma map_outcome_eq [simp]:
  "map_outcome f x = Done y \<longleftrightarrow> (\<exists>z. x = Done z \<and> y = f z)"
  "map_outcome f x = Panicked \<longleftrightarrow> x = Panicked"
  "map_outcome f x = Blocked \<longleftrightarrow> x = Blocked"
  by (cases x; auto)+

lemma map_ok_eq [simp]: "map_ok f r = Inr y \<longleftrightarrow> (\<exists>x. r = Inr x \<and> y = f x)"
  by (cases r) auto

text \<open>
  The contract. \<open>st_ok\<close> is the caches' invariant on the state of an upload. A NAR is accepted
  only if its stream ended cleanly, waiting for the stream means that it is still open, and the
  size of an uploaded NARInfo is that of its text.
\<close>

locale cache_contract =
  fixes ops :: "('hash, 'path, 'narinfo, 'st, 'e, 's) cache_ops"
    and narinfo_text :: "'narinfo \<Rightarrow> string"
    and st_ok :: "'st \<Rightarrow> bool"
  assumes accepted_whole:
      "upload_nar ops st r s = Some (Done (Ok ()), st', s') \<Longrightarrow> st_ok st \<Longrightarrow> sr_live r"
    and waits_open: "upload_nar ops st r s = Some (Blocked, st', s') \<Longrightarrow> \<not> r_closed r"
    and narinfo_len:
      "upload_narinfo ops h n st s = (Done (Ok k), s') \<Longrightarrow> k = of_nat (length (narinfo_text n))"

section \<open>The no-op cache\<close>

text \<open>\<open>core::convert::Infallible\<close> has no values in Rust; here nothing is assumed of it.\<close>

typedecl infallible

text \<open>
  \<open>futures::io::copy\<close> into a sink, eight kilobytes at a time: it reads until the end of the
  stream; the source panics when that fails.
\<close>

function copy_to_sink :: "script_reader \<Rightarrow> unit outcome \<times> script_reader" where
  "copy_to_sink r =
     (case sr_poll_read 8192 r of
        (Pending, r') \<Rightarrow> if sr_idle r' then (Blocked, r') else copy_to_sink r'
      | (Ready (Inl e), r') \<Rightarrow> (Panicked, r')
      | (Ready (Inr bs), r') \<Rightarrow> if bs = [] then (Done (), r') else copy_to_sink r')"
  by pat_completeness auto
termination
proof (relation "measure sr_weight")
  fix r r' a
  assume "(a, r') = sr_poll_read 8192 r" "a = Pending" "\<not> sr_idle r'"
  then show "(r', r) \<in> measure sr_weight"
    using sr.pending_progress [of 8192 r r'] by auto
next
  fix r r' a x bs
  assume "(a, r') = sr_poll_read 8192 r" "a = Ready x" "x = Inr bs" "bs \<noteq> []"
  then show "(r', r) \<in> measure sr_weight"
    using sr.weight_ok [of 8192 r bs r'] by (cases bs) auto
qed auto

declare copy_to_sink.simps [simp del]

lemma copy_to_sink_spec:
  "copy_to_sink r = (out, r') \<Longrightarrow>
     (out = Done () \<longrightarrow> sr_live r) \<and> (out = Blocked \<longrightarrow> \<not> r_closed r) \<and> (out = Panicked \<longrightarrow> \<not> sr_live r)"
proof (induction r rule: copy_to_sink.induct)
  case (1 r)
  obtain a u where p: "sr_poll_read 8192 r = (a, u)"
    by (cases "sr_poll_read 8192 r")
  note facts = sr_poll_closed [OF p] sr_poll_live [where n = 8192 and r = r and r' = u] sr.live_no_err [of r 8192 _ u]
  show ?case
  proof (cases a)
    case Pending
    with "1.prems" "1.IH"(1) [OF p [symmetric] Pending] p facts show ?thesis
      by (auto simp: copy_to_sink.simps [of r] sr_idle_def split: if_splits)
  next
    case (Ready x)
    with "1.prems" "1.IH"(2) [OF p [symmetric] Ready] p facts show ?thesis
      by (cases x) (auto simp: copy_to_sink.simps [of r] split: if_splits)
  qed
qed

definition noop_has_narinfo :: "'hash \<Rightarrow> 's \<Rightarrow> (infallible + bool) outcome \<times> 's" where
  "noop_has_narinfo h s = (Done (Ok False), s)"

definition noop_initiate_nar_upload :: "'path \<Rightarrow> 's \<Rightarrow> (infallible + unit) outcome \<times> 's" where
  "noop_initiate_nar_upload p s = (Done (Ok ()), s)"

definition noop_upload_nar ::
  "unit \<Rightarrow> script_reader \<Rightarrow> 's \<Rightarrow> ((infallible + unit) outcome \<times> unit \<times> 's) option" where
  "noop_upload_nar st nar_bytes s = Some (map_outcome Ok (fst (copy_to_sink nar_bytes)), st, s)"

definition noop_upload_narinfo ::
  "('narinfo \<Rightarrow> string) \<Rightarrow> 'hash \<Rightarrow> 'narinfo \<Rightarrow> unit \<Rightarrow> 's \<Rightarrow> (infallible + u64) outcome \<times> 's" where
  "noop_upload_narinfo narinfo_text h n st s = (Done (Ok (of_nat (length (narinfo_text n)))), s)"

definition noop_cache ::
  "('narinfo \<Rightarrow> string) \<Rightarrow> ('hash, 'path, 'narinfo, unit, infallible, 's) cache_ops" where
  "noop_cache narinfo_text =
     \<lparr>has_narinfo = noop_has_narinfo, initiate_nar_upload = noop_initiate_nar_upload,
      upload_nar = noop_upload_nar, upload_narinfo = noop_upload_narinfo narinfo_text\<rparr>"

interpretation noop: cache_contract "noop_cache narinfo_text" narinfo_text "\<lambda>st. True"
proof unfold_locales
  fix st st' :: unit and s s' :: 's and r h n k
  show "upload_nar (noop_cache narinfo_text) st r s = Some (Done (Ok ()), st', s') \<Longrightarrow> True \<Longrightarrow> sr_live r"
    "upload_nar (noop_cache narinfo_text) st r s = Some (Blocked, st', s') \<Longrightarrow> \<not> r_closed r"
    using copy_to_sink_spec [of r] by (auto simp: noop_cache_def noop_upload_nar_def prod_eq_iff)
  show "upload_narinfo (noop_cache narinfo_text) h n st s = (Done (Ok k), s') \<Longrightarrow>
      k = of_nat (length (narinfo_text n))"
    by (simp add: noop_cache_def noop_upload_narinfo_def)
qed

section \<open>The sub60 cache\<close>

definition sub60_cache_ops ::
  "('url, 'path, 'base, 'hash, 'narinfo, 'etag, 'x) sub60_env \<Rightarrow> 'url sub60_cache \<Rightarrow>
     ('hash, 'path, 'narinfo, ('url, 'base) nar_upload_state, ('url, 'x) cache_request_error, 'url net) cache_ops" where
  "sub60_cache_ops E c =
     \<lparr>has_narinfo = sub60_has_narinfo E c, initiate_nar_upload = sub60_initiate_nar_upload E c,
      upload_nar = sub60_upload_nar E c, upload_narinfo = sub60_upload_narinfo E c\<rparr>"

definition parts_nonzero :: "('url, 'base) nar_upload_state \<Rightarrow> bool" where
  "parts_nonzero st \<longleftrightarrow> part_size st \<noteq> 0"

lemma sub60_upload_nar_live:
  "sub60_upload_nar E c st r w = Some (Done (Ok ()), st', w') \<Longrightarrow> part_size st \<noteq> 0 \<Longrightarrow> sr_live r"
  unfolding sub60_upload_nar_def
  by (drule upload_loop_post) (auto simp: upload_post_def Let_def unat_gt_0)

lemma sub60_upload_narinfo_len:
  "sub60_upload_narinfo E c h n st w = (Done (Ok k), w') \<Longrightarrow> k = of_nat (length (narinfo_str E n))"
  by (auto simp: sub60_upload_narinfo_def Let_def split: option.splits prod.splits sum.splits if_splits)

interpretation sub60: cache_contract "sub60_cache_ops E c" "narinfo_str E" parts_nonzero
  by unfold_locales
    (auto simp: sub60_cache_ops_def parts_nonzero_def
      dest: sub60_upload_nar_live sub60_upload_nar_blocked sub60_upload_narinfo_len)

section \<open>Either cache\<close>

datatype 'url any_cache = AnyNoop | AnySub60 "'url sub60_cache"

datatype any_cache_kind = NoopKind | Sub60Kind

datatype ('url, 'base) any_cache_nar_upload_state =
  NoopState unit | Sub60State "('url, 'base) nar_upload_state"

datatype ('url, 'x) any_cache_error = NoopError infallible | Sub60Error "('url, 'x) cache_request_error"

text \<open>The \<open>From\<close> instances: how a cache, a state or an error becomes one of either cache.\<close>

definition any_cache_from_noop :: "'url any_cache" where
  [simp]: "any_cache_from_noop = AnyNoop"

definition any_cache_from_sub60 :: "'url sub60_cache \<Rightarrow> 'url any_cache" where
  [simp]: "any_cache_from_sub60 = AnySub60"

definition any_state_from_noop :: "unit \<Rightarrow> ('url, 'base) any_cache_nar_upload_state" where
  [simp]: "any_state_from_noop = NoopState"

definition any_state_from_sub60 :: "('url, 'base) nar_upload_state \<Rightarrow> ('url, 'base) any_cache_nar_upload_state" where
  [simp]: "any_state_from_sub60 = Sub60State"

definition any_error_from_noop :: "infallible \<Rightarrow> ('url, 'x) any_cache_error" where
  [simp]: "any_error_from_noop = NoopError"

definition any_error_from_sub60 :: "('url, 'x) cache_request_error \<Rightarrow> ('url, 'x) any_cache_error" where
  [simp]: "any_error_from_sub60 = Sub60Error"

definition any_cache_new ::
  "('url, 'path, 'base, 'hash, 'narinfo, 'etag, 'x) sub60_env \<Rightarrow> any_cache_kind \<Rightarrow> sub60_cache_run_args \<Rightarrow>
     ('x sub60_cache_connect_error + 'url any_cache) outcome" where
  "any_cache_new E kind args =
     (case kind of
        NoopKind \<Rightarrow> Done (Ok any_cache_from_noop)
      | Sub60Kind \<Rightarrow> map_outcome (map_ok any_cache_from_sub60) (connect E args))"

definition any_has_narinfo ::
  "('url, 'path, 'base, 'hash, 'narinfo, 'etag, 'x) sub60_env \<Rightarrow> 'url any_cache \<Rightarrow> 'hash \<Rightarrow> 'url net \<Rightarrow>
     (('url, 'x) any_cache_error + bool) outcome \<times> 'url net" where
  "any_has_narinfo E c h w =
     (case c of
        AnyNoop \<Rightarrow> apfst (map_outcome (map_err any_error_from_noop)) (noop_has_narinfo h w)
      | AnySub60 d \<Rightarrow> apfst (map_outcome (map_err any_error_from_sub60)) (sub60_has_narinfo E d h w))"

definition any_initiate_nar_upload ::
  "('url, 'path, 'base, 'hash, 'narinfo, 'etag, 'x) sub60_env \<Rightarrow> 'url any_cache \<Rightarrow> 'path \<Rightarrow> 'url net \<Rightarrow>
     (('url, 'x) any_cache_error + ('url, 'base) any_cache_nar_upload_state) outcome \<times> 'url net" where
  "any_initiate_nar_upload E c p w =
     (case c of
        AnyNoop \<Rightarrow> apfst (map_outcome (\<lambda>r. map_err any_error_from_noop (map_ok any_state_from_noop r)))
          (noop_initiate_nar_upload p w)
      | AnySub60 d \<Rightarrow> apfst (map_outcome (\<lambda>r. map_err any_error_from_sub60 (map_ok any_state_from_sub60 r)))
          (sub60_initiate_nar_upload E d p w))"

text \<open>A state of the other variant is the \<open>unreachable!\<close> of the source.\<close>

definition any_upload_nar ::
  "('url, 'path, 'base, 'hash, 'narinfo, 'etag, 'x) sub60_env \<Rightarrow> 'url any_cache \<Rightarrow>
     ('url, 'base) any_cache_nar_upload_state \<Rightarrow> script_reader \<Rightarrow> 'url net \<Rightarrow>
     ((('url, 'x) any_cache_error + unit) outcome \<times> ('url, 'base) any_cache_nar_upload_state \<times> 'url net) option" where
  "any_upload_nar E c st r w =
     (case (c, st) of
        (AnyNoop, NoopState u) \<Rightarrow>
          map_option (\<lambda>(out, u', w'). (map_outcome (map_err any_error_from_noop) out, NoopState u', w'))
            (noop_upload_nar u r w)
      | (AnySub60 d, Sub60State u) \<Rightarrow>
          map_option (\<lambda>(out, u', w'). (map_outcome (map_err any_error_from_sub60) out, Sub60State u', w'))
            (sub60_upload_nar E d u r w)
      | _ \<Rightarrow> Some (Panicked, st, w))"

definition any_upload_narinfo ::
  "('url, 'path, 'base, 'hash, 'narinfo, 'etag, 'x) sub60_env \<Rightarrow> 'url any_cache \<Rightarrow> 'hash \<Rightarrow> 'narinfo \<Rightarrow>
     ('url, 'base) any_cache_nar_upload_state \<Rightarrow> 'url net \<Rightarrow>
     (('url, 'x) any_cache_error + u64) outcome \<times> 'url net" where
  "any_upload_narinfo E c h n st w =
     (case (c, st) of
        (AnyNoop, NoopState u) \<Rightarrow>
          apfst (map_outcome (map_err any_error_from_noop)) (noop_upload_narinfo (narinfo_str E) h n u w)
      | (AnySub60 d, Sub60State u) \<Rightarrow>
          apfst (map_outcome (map_err any_error_from_sub60)) (sub60_upload_narinfo E d h n u w)
      | _ \<Rightarrow> (Panicked, w))"

definition any_cache_ops ::
  "('url, 'path, 'base, 'hash, 'narinfo, 'etag, 'x) sub60_env \<Rightarrow> 'url any_cache \<Rightarrow>
     ('hash, 'path, 'narinfo, ('url, 'base) any_cache_nar_upload_state, ('url, 'x) any_cache_error, 'url net) cache_ops" where
  "any_cache_ops E c =
     \<lparr>has_narinfo = any_has_narinfo E c, initiate_nar_upload = any_initiate_nar_upload E c,
      upload_nar = any_upload_nar E c, upload_narinfo = any_upload_narinfo E c\<rparr>"

fun any_parts_nonzero :: "('url, 'base) any_cache_nar_upload_state \<Rightarrow> bool" where
  "any_parts_nonzero (NoopState u) = True"
| "any_parts_nonzero (Sub60State st) = parts_nonzero st"

interpretation any: cache_contract "any_cache_ops E c" "narinfo_str E" any_parts_nonzero
proof unfold_locales
  fix st st' r w w' h n k
  show "upload_nar (any_cache_ops E c) st r w = Some (Done (Ok ()), st', w') \<Longrightarrow> any_parts_nonzero st \<Longrightarrow> sr_live r"
    "upload_nar (any_cache_ops E c) st r w = Some (Blocked, st', w') \<Longrightarrow> \<not> r_closed r"
    using noop.accepted_whole [of "narinfo_str E" _ r w] noop.waits_open [of "narinfo_str E" _ r w]
      sub60.accepted_whole [of E _ _ r w] sub60.waits_open [of E _ _ r w]
    by (auto simp: any_cache_ops_def any_upload_nar_def noop_cache_def sub60_cache_ops_def
        split: any_cache.splits any_cache_nar_upload_state.splits prod.splits)
  show "upload_narinfo (any_cache_ops E c) h n st w = (Done (Ok k), w') \<Longrightarrow> k = of_nat (length (narinfo_str E n))"
    by (auto simp: any_cache_ops_def any_upload_narinfo_def noop_upload_narinfo_def apfst_def map_prod_def
        split: any_cache.splits any_cache_nar_upload_state.splits prod.splits dest: sub60_upload_narinfo_len)
qed

end
