(* ===== verification/Handle_Path.thy ===== *)
theory Handle_Path
  imports Caches "HOL-Library.Multiset"
begin

text \<open>
  \<open>src/event_loop.rs\<close>, from \<open>handle_store_path\<close> to its end: what the daemon does with one
  store path. It asks the cache and the upstream caches whether they have the path, and
  otherwise uploads its NAR, hashing and counting the bytes on the way, and then its NARInfo.

  The generic parameters of the Rust functions are values here: the cache is a \<open>cache_ops\<close>,
  and everything else that lies outside this file is a field of \<open>handle_env\<close>: the HTTP client,
  the store, URLs, SHA-256, the in-memory pipe of \<open>tokio\<close>, and the order in which concurrent
  operations finish.
\<close>

section \<open>The hashing and counting writer\<close>

record ('w, 'h) hash_and_count_writer =
  inner :: 'w
  sha256 :: 'h
  num_bytes_written :: u64

definition hcw_new :: "'h \<Rightarrow> 'w \<Rightarrow> ('w, 'h) hash_and_count_writer" where
  "hcw_new sha_new writer = \<lparr>inner = writer, sha256 = sha_new, num_bytes_written = 0\<rparr>"

fun hcw_poll_write ::
  "('h \<Rightarrow> bytes \<Rightarrow> 'h) \<Rightarrow> 'w poll_write_fn \<Rightarrow> ('w, 'h) hash_and_count_writer poll_write_fn" where
  "hcw_poll_write sha_update pw buf this =
     (case pw buf (inner this) of
        (Ready (Inr num_bytes), w) \<Rightarrow>
          (Ready (Ok num_bytes),
           this\<lparr>inner := w, sha256 := sha_update (sha256 this) (take num_bytes buf),
             num_bytes_written := num_bytes_written this + of_nat num_bytes\<rparr>)
      | (other, w) \<Rightarrow> (other, this\<lparr>inner := w\<rparr>))"

definition hcw_poll_sync :: "'w poll_sync_fn \<Rightarrow> ('w, 'h) hash_and_count_writer poll_sync_fn" where
  "hcw_poll_sync ps this = (case ps (inner this) of (a, w) \<Rightarrow> (a, this\<lparr>inner := w\<rparr>))"

section \<open>The environment\<close>

text \<open>
  A run of the store's \<open>write_nar\<close> on a writer: the buffers it passes to \<open>poll_write\<close>, one
  after the other, whether it closes the writer at the end, and its result.
\<close>

record 'we nar_writes =
  nw_calls :: "bytes list"
  nw_closed :: bool
  nw_result :: "'we + unit"

record ('base, 'sig, 'ca, 'ie) path_infos =
  references :: "'ie + 'base list"
  deriver :: "'ie + 'base option"
  signatures :: "'ie + 'sig list"
  content_address :: "'ie + 'ca option"

datatype compression_algorithm = NoCompression

record ('path, 'base, 'sig, 'ca, 'digest) narinfo =
  ni_store_path :: 'path
  ni_compression :: compression_algorithm
  ni_file_hash :: 'digest
  ni_file_size :: u64
  ni_nar_hash :: 'digest
  ni_nar_size :: u64
  ni_references :: "'base list"
  ni_deriver :: "'base option"
  ni_signatures :: "'sig list"
  ni_content_address :: "'ca option"

text \<open>
  How the two futures of \<open>future::select\<close> race: the first of them is ready when it is polled
  for the first time, so that the second was not polled yet, or both were polled and one
  finished first.
\<close>

datatype race = CacheAtOnce | CacheFirst | UpstreamFirst

record ('url, 'hash, 'path, 'base, 'sig, 'ca, 'digest, 'h, 'he, 'ie, 'we) handle_env =
  store_hash :: "'path \<Rightarrow> 'hash"
  filename_str :: "'hash \<Rightarrow> string"
  push_path_segment :: "'url \<Rightarrow> string \<Rightarrow> 'url option"
  http_get :: "'url \<Rightarrow> 'he + nat"
  arrival :: "bool list \<Rightarrow> bool list"
  select_race :: race
  sha_new :: 'h
  sha_update :: "'h \<Rightarrow> bytes \<Rightarrow> 'h"
  sha_finalize :: "'h \<Rightarrow> 'digest"
  duplex_writer :: "u64 \<Rightarrow> script_writer"
  duplex_reader :: "u64 \<Rightarrow> bytes \<Rightarrow> bool \<Rightarrow> script_reader"
  nix_write_nar :: "'path \<Rightarrow> 'we nar_writes"
  write_fails_first :: bool
  nix_get_path_infos :: "'path \<Rightarrow> 'ie + ('base, 'sig, 'ca, 'ie) path_infos"

datatype ('e, 'ie, 'we) handle_path_error =
    CheckNarInfoExistence 'e
  | CreateNarUploadId 'e
  | GetPathInfos 'ie
  | UploadNar 'e
  | UploadNarInfo 'e
  | WriteNar 'we
  | WriteNarWroteZeroBytes

definition NAR_STREAM_BUFFER_SIZE :: u64 where
  "NAR_STREAM_BUFFER_SIZE = 64 * 1024"

section \<open>Is the path cached already?\<close>

fun push_all_segments :: "('url \<Rightarrow> string \<Rightarrow> 'url option) \<Rightarrow> string \<Rightarrow> 'url list \<Rightarrow> 'url list option" where
  "push_all_segments push seg [] = Some []"
| "push_all_segments push seg (u # us) =
     (case push u seg of
        None \<Rightarrow> None
      | Some u' \<Rightarrow> map_option ((#) u') (push_all_segments push seg us))"

fun first_hit :: "bool list \<Rightarrow> bool" where
  "first_hit [] = False"
| "first_hit (b # bs) = (if b then True else first_hit bs)"

definition upstream_caches_have_narinfo ::
  "('url, 'hash, 'path, 'base, 'sig, 'ca, 'digest, 'h, 'he, 'ie, 'we) handle_env \<Rightarrow> 'hash \<Rightarrow> 'url list \<Rightarrow>
     bool outcome" where
  "upstream_caches_have_narinfo H h upstream_caches =
     (case push_all_segments (push_path_segment H) (filename_str H h) upstream_caches of
        None \<Rightarrow> Panicked
      | Some urls \<Rightarrow> Done (first_hit (arrival H (map (\<lambda>u. http_get H u = Ok 200) urls))))"

text \<open>The arms of the \<open>match\<close>: the cache answered first, or the upstream caches did.\<close>

fun cache_answered :: "'e + bool \<Rightarrow> bool outcome \<Rightarrow> ('e + bool) outcome" where
  "cache_answered (Inr True) upstream_has_narinfo = Done (Ok False)"
| "cache_answered (Inr False) upstream_has_narinfo = map_outcome (\<lambda>b. Ok (\<not> b)) upstream_has_narinfo"
| "cache_answered (Inl err) upstream_has_narinfo =
     map_outcome (\<lambda>b. if b then Ok False else Err err) upstream_has_narinfo"

fun upstream_answered :: "bool \<Rightarrow> ('e + bool) outcome \<Rightarrow> ('e + bool) outcome" where
  "upstream_answered True cache_has_narinfo = Done (Ok False)"
| "upstream_answered False cache_has_narinfo = map_outcome (map_ok Not) cache_has_narinfo"

fun and_then :: "'a outcome \<Rightarrow> ('a \<Rightarrow> 'b outcome) \<Rightarrow> 'b outcome" where
  "and_then (Done x) k = k x"
| "and_then Panicked k = Panicked"
| "and_then Blocked k = Blocked"

text \<open>
  \<open>should_push_store_path\<close>. When the upstream caches answer first and one has the path, the
  request to the cache is dropped; the state returned is the one after it, although it may not
  have been sent. No theorem rests on the log of a dropped request (see \<open>handlers_sent\<close> in
  \<open>Shared_Server\<close>).
\<close>

definition should_push_store_path ::
  "('url, 'hash, 'path, 'base, 'sig, 'ca, 'digest, 'h, 'he, 'ie, 'we) handle_env \<Rightarrow>
     ('hash, 'path, 'narinfo, 'st, 'e, 's) cache_ops \<Rightarrow> 'url list \<Rightarrow> 'hash \<Rightarrow> 's \<Rightarrow> ('e + bool) outcome \<times> 's" where
  "should_push_store_path H ops upstream_caches h s =
     (let (cache_has_narinfo, s') = has_narinfo ops h s;
          upstream_has_narinfo = upstream_caches_have_narinfo H h upstream_caches in
      (case select_race H of
         CacheAtOnce \<Rightarrow> and_then cache_has_narinfo (\<lambda>r. cache_answered r upstream_has_narinfo)
       | CacheFirst \<Rightarrow>
           and_then upstream_has_narinfo (\<lambda>_.
             and_then cache_has_narinfo (\<lambda>r. cache_answered r upstream_has_narinfo))
       | UpstreamFirst \<Rightarrow> and_then upstream_has_narinfo (\<lambda>b. upstream_answered b cache_has_narinfo), s'))"

section \<open>Uploading the NAR\<close>

definition write_half ::
  "('h \<Rightarrow> bytes \<Rightarrow> 'h) \<Rightarrow> bytes list \<Rightarrow> (script_writer, 'h) hash_and_count_writer \<Rightarrow>
     (script_writer, 'h) hash_and_count_writer" where
  "write_half upd calls w = fold (\<lambda>buf w. snd (hcw_poll_write upd sw_poll_write buf w)) calls w"

text \<open>
  \<open>future::try_join\<close> of the two halves. The upload reads what the writer accepted. Either half
  failing ends both; if both would fail, \<open>write_fails_first\<close> says which is seen. The state
  after a failure is that of the upload run as far as it goes; a cancelled upload did a prefix
  of it.
\<close>

definition try_join_nar ::
  "bool \<Rightarrow> 'we + unit \<Rightarrow> (('e + unit) outcome \<times> 'st \<times> 's) option \<Rightarrow> 's \<Rightarrow>
     ((('e, 'ie, 'we) handle_path_error + 'st) outcome \<times> 's) option" where
  "try_join_nar write_first written uploaded s =
     (case written of
        Inr _ \<Rightarrow>
          map_option (\<lambda>(out, st, s'). (map_outcome (\<lambda>r. map_err UploadNar (map_ok (\<lambda>_. st) r)) out, s')) uploaded
      | Inl we \<Rightarrow>
          (case uploaded of
             None \<Rightarrow> if write_first then Some (Done (Err (WriteNar we)), s) else None
           | Some (Done (Inl e), st, s') \<Rightarrow>
               Some (Done (Err (if write_first then WriteNar we else UploadNar e)), s')
           | Some (Panicked, st, s') \<Rightarrow> Some (if write_first then Done (Err (WriteNar we)) else Panicked, s')
           | Some (_, st, s') \<Rightarrow> Some (Done (Err (WriteNar we)), s')))"

section \<open>Handling a path\<close>

text \<open>The \<open>?\<close> operator after an asynchronous operation and \<open>map_err\<close>.\<close>

fun try_op ::
  "('e + 'a) outcome \<times> 's \<Rightarrow> ('e \<Rightarrow> 'f) \<Rightarrow> ('a \<Rightarrow> 's \<Rightarrow> (('f + 'b) outcome \<times> 's) option) \<Rightarrow>
     (('f + 'b) outcome \<times> 's) option" where
  "try_op (Done (Inr x), s) f k = k x s"
| "try_op (Done (Inl e), s) f k = Some (Done (Err (f e)), s)"
| "try_op (Panicked, s) f k = Some (Panicked, s)"
| "try_op (Blocked, s) f k = Some (Blocked, s)"

definition saturating_add :: "u64 \<Rightarrow> u64 \<Rightarrow> u64" where
  "saturating_add a b = (if 2 ^ 64 \<le> uint a + uint b then - 1 else a + b)"

definition make_narinfo ::
  "'path \<Rightarrow> 'digest \<Rightarrow> u64 \<Rightarrow> ('base, 'sig, 'ca, 'ie) path_infos \<Rightarrow>
     'ie + ('path, 'base, 'sig, 'ca, 'digest) narinfo" where
  "make_narinfo store_path nar_hash nar_size infos =
     bind_result (references infos) (\<lambda>references.
     bind_result (deriver infos) (\<lambda>deriver.
     bind_result (signatures infos) (\<lambda>signatures.
     bind_result (content_address infos) (\<lambda>content_address.
       Ok \<lparr>ni_store_path = store_path, ni_compression = NoCompression,
           ni_file_hash = nar_hash, ni_file_size = nar_size, ni_nar_hash = nar_hash, ni_nar_size = nar_size,
           ni_references = references, ni_deriver = deriver, ni_signatures = signatures,
           ni_content_address = content_address\<rparr>))))"

text \<open>What follows the upload of the NAR: lines 311 to 357.\<close>

definition push_narinfo ::
  "('url, 'hash, 'path, 'base, 'sig, 'ca, 'digest, 'h, 'he, 'ie, 'we) handle_env \<Rightarrow>
     ('hash, 'path, ('path, 'base, 'sig, 'ca, 'digest) narinfo, 'st, 'e, 's) cache_ops \<Rightarrow> 'path \<Rightarrow>
     (script_writer, 'h) hash_and_count_writer \<Rightarrow> 'st \<Rightarrow> 's \<Rightarrow>
     ((('e, 'ie, 'we) handle_path_error + u64 option) outcome \<times> 's) option" where
  "push_narinfo H ops store_path writer st s =
     (let nar_hash = sha_finalize H (sha256 writer); nar_size = num_bytes_written writer in
      if nar_size = 0 then Some (Done (Err WriteNarWroteZeroBytes), s)
      else
        (case bind_result (nix_get_path_infos H store_path) (make_narinfo store_path nar_hash nar_size) of
           Inl err \<Rightarrow> Some (Done (Err (GetPathInfos err)), s)
         | Inr ni \<Rightarrow>
             try_op (upload_narinfo ops (store_hash H store_path) ni st s) UploadNarInfo
               (\<lambda>narinfo_size s'. Some (Done (Ok (Some (saturating_add nar_size narinfo_size))), s'))))"

definition upload_reader ::
  "('url, 'hash, 'path, 'base, 'sig, 'ca, 'digest, 'h, 'he, 'ie, 'we) handle_env \<Rightarrow>
     'we nar_writes \<Rightarrow> (script_writer, 'h) hash_and_count_writer \<Rightarrow> script_reader" where
  "upload_reader H nw writer = duplex_reader H NAR_STREAM_BUFFER_SIZE (w_accepted (inner writer)) (nw_closed nw)"

definition written_nar ::
  "('url, 'hash, 'path, 'base, 'sig, 'ca, 'digest, 'h, 'he, 'ie, 'we) handle_env \<Rightarrow> 'path \<Rightarrow>
     (script_writer, 'h) hash_and_count_writer" where
  "written_nar H store_path =
     write_half (sha_update H) (nw_calls (nix_write_nar H store_path))
       (hcw_new (sha_new H) (duplex_writer H NAR_STREAM_BUFFER_SIZE))"

definition handle_store_path ::
  "('url, 'hash, 'path, 'base, 'sig, 'ca, 'digest, 'h, 'he, 'ie, 'we) handle_env \<Rightarrow>
     ('hash, 'path, ('path, 'base, 'sig, 'ca, 'digest) narinfo, 'st, 'e, 's) cache_ops \<Rightarrow> 'url list \<Rightarrow> 'path \<Rightarrow> 's \<Rightarrow>
     ((('e, 'ie, 'we) handle_path_error + u64 option) outcome \<times> 's) option" where
  "handle_store_path H ops upstream_caches store_path s =
     try_op (should_push_store_path H ops upstream_caches (store_hash H store_path) s) CheckNarInfoExistence
       (\<lambda>push s1. if \<not> push then Some (Done (Ok None), s1) else
          try_op (initiate_nar_upload ops store_path s1) CreateNarUploadId
            (\<lambda>st s2.
               let nw = nix_write_nar H store_path; writer = written_nar H store_path in
               Option.bind
                 (try_join_nar (write_fails_first H) (nw_result nw)
                    (upload_nar ops st (upload_reader H nw writer) s2) s2)
                 (\<lambda>joined. try_op joined id (push_narinfo H ops store_path writer))))"

end
