(* ===== verification/Reporter.thy ===== *)
theory Reporter
  imports Event_Loop Handle_Path
begin

text \<open>
  \<open>src/real_stop_progress_reporter.rs\<close>: the text the daemon sends to the \<open>stop\<close> subcommand
  while it finishes. Writing is best effort, errors are ignored. \<open>write_all\<close> and \<open>flush\<close> of
  \<open>futures\<close> are parameters, and so is the printing of store paths. Errors are printed with
  their chain of sources.
\<close>

section \<open>Sizes\<close>

text \<open>
  \<open>as f64\<close> rounds to 53 significant bits, to even on a tie; dividing by 1024 is exact; and
  \<open>{:.1}\<close> rounds the exact value to one digit, to even on a tie. So a value is represented by
  the integer it was rounded to and the power of 1024 it was divided by.
\<close>

definition UNITS :: "string list" where
  "UNITS = [''B'', ''KiB'', ''MiB'', ''GiB'', ''TiB'', ''PiB'']"

definition round_half_even :: "int \<Rightarrow> int \<Rightarrow> int" where
  "round_half_even a b =
     (let q = a div b; r = a mod b in if 2 * r < b \<or> 2 * r = b \<and> even q then q else q + 1)"

function f64_shift :: "int \<Rightarrow> nat" where
  "f64_shift n = (if n < 2 ^ 53 then 0 else Suc (f64_shift (n div 2)))"
  by pat_completeness auto
termination
  by (relation "measure nat") auto

declare f64_shift.simps [simp del]

definition u64_as_f64 :: "int \<Rightarrow> int" where
  "u64_as_f64 n = round_half_even n (2 ^ f64_shift n) * 2 ^ f64_shift n"

function unit_loop :: "int \<Rightarrow> nat \<Rightarrow> nat" where
  "unit_loop value unit_idx =
     (if unit_idx + 1 < length UNITS \<and> 1024 * 1024 ^ unit_idx \<le> value
      then unit_loop value (unit_idx + 1) else unit_idx)"
  by pat_completeness auto
termination
  by (relation "measure (\<lambda>(value, unit_idx). length UNITS - unit_idx)") auto

declare unit_loop.simps [simp del]

definition tenths :: "int \<Rightarrow> nat \<Rightarrow> int" where
  "tenths value unit_idx = round_half_even (10 * value) (1024 ^ unit_idx)"

definition human_readable_byte_size :: "u64 \<Rightarrow> string" where
  "human_readable_byte_size n =
     (let value = u64_as_f64 (uint n); unit_idx = unit_loop value 0 in
      if unit_idx = 0 then show_nat (unat n) @ '' '' @ UNITS ! unit_idx
      else show_nat (nat (tenths value unit_idx div 10)) @ ''.'' @
        show_nat (nat (tenths value unit_idx mod 10)) @ '' '' @ UNITS ! unit_idx)"

section \<open>Errors\<close>

text \<open>An error's \<open>Display\<close> and its \<open>source\<close>.\<close>

datatype error_chain = ErrorChain (chain_text: string) (chain_source: "error_chain option")

fun caused_by :: "error_chain \<Rightarrow> string" where
  "caused_by (ErrorChain msg None) = []"
| "caused_by (ErrorChain msg (Some err)) = CHR 0x0A # ''  caused by: '' @ chain_text err @ caused_by err"

fun handle_path_error_chain ::
  "('e \<Rightarrow> error_chain) \<Rightarrow> ('ie \<Rightarrow> error_chain) \<Rightarrow> ('we \<Rightarrow> error_chain) \<Rightarrow>
     ('e, 'ie, 'we) handle_path_error \<Rightarrow> error_chain" where
  "handle_path_error_chain ce ie we (CheckNarInfoExistence e) =
     ErrorChain ''couldn't check NARInfo existence on remote cache'' (Some (ce e))"
| "handle_path_error_chain ce ie we (CreateNarUploadId e) =
     ErrorChain ''couldn't create NAR upload ID'' (Some (ce e))"
| "handle_path_error_chain ce ie we (GetPathInfos e) =
     ErrorChain ''couldn't get store path infos'' (Some (ie e))"
| "handle_path_error_chain ce ie we (UploadNar e) = ErrorChain ''couldn't upload NAR to cache'' (Some (ce e))"
| "handle_path_error_chain ce ie we (UploadNarInfo e) =
     ErrorChain ''couldn't upload NARInfo to cache'' (Some (ce e))"
| "handle_path_error_chain ce ie we (WriteNar e) = ErrorChain ''couldn't get NAR from store'' (Some (we e))"
| "handle_path_error_chain ce ie we WriteNarWroteZeroBytes = ErrorChain ''got empty NAR from store'' None"

fun show_method :: "http_method \<Rightarrow> string" where
  "show_method HEAD = ''HEAD''"
| "show_method GET = ''GET''"
| "show_method POST = ''POST''"
| "show_method PUT = ''PUT''"

fun quoted_error_chain :: "('x \<Rightarrow> error_chain) \<Rightarrow> 'x quoted_from_str_error \<Rightarrow> error_chain" where
  "quoted_error_chain xe MissingQuotes = ErrorChain ''value must be wrapped in double quotes'' None"
| "quoted_error_chain xe (QuotedInner e) = ErrorChain ''invalid quoted value'' (Some (xe e))"

fun cache_request_error_chain ::
  "('url \<Rightarrow> string) \<Rightarrow> (nat \<Rightarrow> string) \<Rightarrow> ('x \<Rightarrow> error_chain) \<Rightarrow> ('url, 'x) cache_request_error \<Rightarrow> error_chain" where
  "cache_request_error_chain ue se xe (ParseEtag e) =
     ErrorChain ''couldn't parse Etag'' (Some (quoted_error_chain xe e))"
| "cache_request_error_chain ue se xe (InvalidResponseHeader m u h e) =
     ErrorChain (''invalid '' @ h @ '' header from '' @ show_method m @ '' '' @ ue u) (Some (xe e))"
| "cache_request_error_chain ue se xe (MissingResponseHeader m u h) =
     ErrorChain (''missing '' @ h @ '' header from '' @ show_method m @ '' '' @ ue u) None"
| "cache_request_error_chain ue se xe (ParseNarMultipartsResponseBody e) =
     ErrorChain ''couldn't parse NAR multipart response body'' (Some (xe e))"
| "cache_request_error_chain ue se xe (ParsePartsResponseBody e) =
     ErrorChain ''couldn't parse multipart parts response body'' (Some (xe e))"
| "cache_request_error_chain ue se xe (ReadNar e) =
     ErrorChain ''couldn't read NAR bytes'' (Some (ErrorChain (io_message e) None))"
| "cache_request_error_chain ue se xe (HttpRequest m e) =
     ErrorChain (''HTTP '' @ show_method m @ '' request failed'') (Some (xe e))"
| "cache_request_error_chain ue se xe TooManyNarParts =
     ErrorChain ''NAR upload has too many multipart parts'' None"
| "cache_request_error_chain ue se xe (UnexpectedResponse m status u body) =
     ErrorChain (''unexpected response from '' @ show_method m @ '' '' @ ue u @ '': '' @ se status @
       response_body_suffix body) None"

section \<open>The reporter\<close>

record 'w writer_ops =
  write_all :: "bytes \<Rightarrow> 'w \<Rightarrow> (io_error + unit) \<times> 'w"
  flush :: "'w \<Rightarrow> (io_error + unit) \<times> 'w"

record 'w stop_progress_reporter =
  reported_paths_left_to_handle :: bool
  spr_writer :: 'w

definition reporter_new :: "'w \<Rightarrow> 'w stop_progress_reporter" where
  "reporter_new writer = \<lparr>reported_paths_left_to_handle = False, spr_writer = writer\<rparr>"

definition say :: "'w writer_ops \<Rightarrow> string \<Rightarrow> 'w stop_progress_reporter \<Rightarrow> 'w stop_progress_reporter" where
  "say W msg r = r\<lparr>spr_writer := snd (write_all W (as_bytes msg) (spr_writer r))\<rparr>"

definition report_paths_left_to_handle ::
  "'w writer_ops \<Rightarrow> u32 \<Rightarrow> 'w stop_progress_reporter \<Rightarrow> 'w stop_progress_reporter" where
  "report_paths_left_to_handle W n r =
     (if n = 0 then r
      else
        let (verb, plural) = (if n = 1 then (''is'', '''') else (''are'', ''s'')) in
        (say W (''There '' @ verb @ '' still '' @ show_nat (unat n) @ '' store path'' @ plural @
           '' left to handle'' @ [CHR 0x0A]) r)\<lparr>reported_paths_left_to_handle := True\<rparr>)"

definition report_path_pushed ::
  "'w writer_ops \<Rightarrow> ('path \<Rightarrow> string) \<Rightarrow> 'path \<Rightarrow> 'w stop_progress_reporter \<Rightarrow> 'w stop_progress_reporter" where
  "report_path_pushed W show_path path r = say W (''Pushed '' @ show_path path @ [CHR 0x0A]) r"

definition report_path_skipped ::
  "'w writer_ops \<Rightarrow> ('path \<Rightarrow> string) \<Rightarrow> 'path \<Rightarrow> 'w stop_progress_reporter \<Rightarrow> 'w stop_progress_reporter" where
  "report_path_skipped W show_path path r = say W (''Skipped '' @ show_path path @ [CHR 0x0A]) r"

definition report_path_handling_error ::
  "'w writer_ops \<Rightarrow> ('path \<Rightarrow> string) \<Rightarrow> 'path \<Rightarrow> 'w stop_progress_reporter \<Rightarrow> 'w stop_progress_reporter" where
  "report_path_handling_error W show_path path r = say W (''Failed handling '' @ show_path path @ [CHR 0x0A]) r"

definition count_line :: "u32 \<Rightarrow> string \<Rightarrow> string" where
  "count_line n what =
     show_nat (unat n) @ '' store path'' @ (if n = 1 then '''' else ''s'') @ '' '' @
     (if n = 1 then ''was'' else ''were'') @ '' '' @ what"

definition error_lines :: "('path \<Rightarrow> string) \<Rightarrow> ('path \<times> error_chain) list \<Rightarrow> string" where
  "error_lines show_path errors =
     concat (map (\<lambda>(store_path, error).
       show_path store_path @ '': '' @ chain_text error @ caused_by error @ [CHR 0x0A]) errors)"

definition final_report_msg ::
  "('path \<Rightarrow> string) \<Rightarrow> ('cerr \<Rightarrow> error_chain) \<Rightarrow> ('herr \<Rightarrow> error_chain) \<Rightarrow> bool \<Rightarrow>
     ('path, 'cerr, 'herr) action_report \<Rightarrow> string" where
  "final_report_msg show_path cerr herr reported rep =
     (let num_errors = length (path_closure_errors rep) + length (path_handling_errors rep);
          errors = map (\<lambda>(p, e). (p, cerr e)) (path_closure_errors rep) @
                   map (\<lambda>(p, e). (p, herr e)) (path_handling_errors rep)
      in (if reported then [CHR 0x0A] else []) @
         count_line (num_paths_skipped rep) ''skipped'' @ [CHR 0x0A] @
         count_line (num_paths_pushed rep) ''pushed'' @
         (if 0 < num_paths_pushed rep
          then '', totalling '' @ human_readable_byte_size (num_bytes_pushed rep) else []) @ [CHR 0x0A] @
         (if 0 < num_errors
          then show_nat num_errors @ '' store path'' @ (if num_errors = 1 then '''' else ''s'') @
            '' could not be handled:'' @ [CHR 0x0A] @ error_lines show_path errors
          else []))"

definition report_final_report ::
  "'w writer_ops \<Rightarrow> ('path \<Rightarrow> string) \<Rightarrow> ('cerr \<Rightarrow> error_chain) \<Rightarrow> ('herr \<Rightarrow> error_chain) \<Rightarrow>
     ('path, 'cerr, 'herr) action_report \<Rightarrow> 'w stop_progress_reporter \<Rightarrow> 'w stop_progress_reporter" where
  "report_final_report W show_path cerr herr rep r =
     (let r1 = say W (final_report_msg show_path cerr herr (reported_paths_left_to_handle r) rep) r in
      r1\<lparr>spr_writer := snd (flush W (spr_writer r1))\<rparr>)"

text \<open>The reporter receiving the calls of the event loop.\<close>

fun reporter_call ::
  "'w writer_ops \<Rightarrow> ('path \<Rightarrow> string) \<Rightarrow> ('cerr \<Rightarrow> error_chain) \<Rightarrow> ('herr \<Rightarrow> error_chain) \<Rightarrow>
     ('path, 'cerr, 'herr) report_call \<Rightarrow> 'w stop_progress_reporter \<Rightarrow> 'w stop_progress_reporter" where
  "reporter_call W sp cerr herr (ReportPathsLeftToHandle n) r = report_paths_left_to_handle W n r"
| "reporter_call W sp cerr herr (ReportPathPushed path n) r = report_path_pushed W sp path r"
| "reporter_call W sp cerr herr (ReportPathSkipped path) r = report_path_skipped W sp path r"
| "reporter_call W sp cerr herr (ReportPathHandlingError path e) r = report_path_handling_error W sp path r"
| "reporter_call W sp cerr herr (ReportFinalReport rep) r = report_final_report W sp cerr herr rep r"

end
