(* ===== verification/Commands.thy ===== *)
theory Commands
  imports Reporter
begin

text \<open>
  The three subcommands: \<open>src/run.rs\<close> (starting the daemon, signalling readiness, accepting
  connections), \<open>src/push.rs\<close> and \<open>src/stop.rs\<close>. Sockets, files and the opening of the Nix
  store are parameters. Waiting for a future polls it until it is ready, at most \<open>n\<close> times:
  \<open>None\<close> means that it was still pending, and the theorems say which \<open>n\<close> is enough.
\<close>

section \<open>Processes\<close>

text \<open>What a finished process leaves behind. A process that returns from \<open>main\<close> exits with 0.\<close>

record process_end =
  p_stdout :: bytes
  p_stderr :: string
  p_exit :: nat

definition eprintln :: "string \<Rightarrow> string" where
  "eprintln msg = msg @ [CHR 0x0A]"

fun await :: "nat \<Rightarrow> ('s \<Rightarrow> 'a poll \<times> 's) \<Rightarrow> 's \<Rightarrow> ('a \<times> 's) option" where
  "await 0 poll s = None"
| "await (Suc n) poll s =
     (case poll s of (Ready a, s') \<Rightarrow> Some (a, s') | (Pending, s') \<Rightarrow> await n poll s')"

text \<open>\<open>SinkExt::feed\<close> and \<open>SinkExt::send\<close> on the sender of the protocol.\<close>

definition feed ::
  "('path, 'perr) wire_env \<Rightarrow> nat \<Rightarrow> 'path message \<Rightarrow> 'w sender \<Rightarrow> ((io_error + unit) \<times> 'w sender) option" where
  "feed E n message s =
     (case await n sender_poll_ready s of
        None \<Rightarrow> None
      | Some (Inl e, s') \<Rightarrow> Some (Err e, s')
      | Some (Inr _, s') \<Rightarrow> Some (start_send E message s'))"

definition sink_send ::
  "('path, 'perr) wire_env \<Rightarrow> 'w poll_write_fn \<Rightarrow> 'w poll_sync_fn \<Rightarrow> nat \<Rightarrow> 'path message \<Rightarrow> 'w sender \<Rightarrow>
     ((io_error + unit) \<times> 'w sender) option" where
  "sink_send E pw pf n message s =
     (case feed E n message s of
        None \<Rightarrow> None
      | Some (Inl e, s') \<Rightarrow> Some (Err e, s')
      | Some (Inr _, s') \<Rightarrow> await n (sender_poll_flush pw pf) s')"

section \<open>\<open>push\<close>\<close>

record 'path push_args =
  push_socket :: string
  store_paths :: "'path list"

datatype push_error = PushConnectToSocket io_error | PushWriteMessage io_error

fun push_error_fmt :: "push_error \<Rightarrow> string" where
  "push_error_fmt (PushConnectToSocket error) = ''Couldn't connect to Unix domain socket: '' @ io_message error"
| "push_error_fmt (PushWriteMessage error) =
     ''Couldn't write message to Unix domain socket: '' @ io_message error"

fun feed_all ::
  "('path, 'perr) wire_env \<Rightarrow> nat \<Rightarrow> 'path list \<Rightarrow> 'w sender \<Rightarrow> ((io_error + unit) \<times> 'w sender) option" where
  "feed_all E n [] s = Some (Ok (), s)"
| "feed_all E n (store_path # ps) s =
     (case feed E n (PushStorePath store_path) s of
        None \<Rightarrow> None
      | Some (Inl e, s') \<Rightarrow> Some (Err e, s')
      | Some (Inr _, s') \<Rightarrow> feed_all E n ps s')"

text \<open>The block of \<open>push\<close>, with the socket as it is left.\<close>

definition push_result ::
  "('path, 'perr) wire_env \<Rightarrow> 'w poll_write_fn \<Rightarrow> 'w poll_sync_fn \<Rightarrow> nat \<Rightarrow> (string \<Rightarrow> io_error + 'w) \<Rightarrow>
     'path push_args \<Rightarrow> ((push_error + unit) \<times> 'w option) option" where
  "push_result E pw pc n unix_connect args =
     (case unix_connect (push_socket args) of
        Inl e \<Rightarrow> Some (Err (PushConnectToSocket e), None)
      | Inr socket \<Rightarrow>
          (case feed_all E n (store_paths args) (Sender_new socket) of
             None \<Rightarrow> None
           | Some (Inl e, s) \<Rightarrow> Some (Err (PushWriteMessage e), Some (swriter s))
           | Some (Inr _, s) \<Rightarrow>
               map_option (\<lambda>(r, s'). (map_err PushWriteMessage r, Some (swriter s')))
                 (await n (sender_poll_close pw pc) s)))"

definition push ::
  "('path, 'perr) wire_env \<Rightarrow> 'w poll_write_fn \<Rightarrow> 'w poll_sync_fn \<Rightarrow> nat \<Rightarrow> (string \<Rightarrow> io_error + 'w) \<Rightarrow>
     'path push_args \<Rightarrow> (process_end \<times> 'w option) option" where
  "push E pw pc n unix_connect args =
     map_option (\<lambda>(res, w).
       (case res of
          Inl push_error \<Rightarrow> \<lparr>p_stdout = [], p_stderr = eprintln (push_error_fmt push_error), p_exit = 1\<rparr>
        | Inr _ \<Rightarrow> \<lparr>p_stdout = [], p_stderr = [], p_exit = 0\<rparr>, w))
       (push_result E pw pc n unix_connect args)"

section \<open>\<open>stop\<close>\<close>

record stop_args =
  stop_socket :: string

datatype stop_error = StopConnectToSocket io_error | StopWriteMessage io_error

fun stop_error_fmt :: "stop_error \<Rightarrow> string" where
  "stop_error_fmt (StopConnectToSocket error) = ''Couldn't connect to Unix domain socket: '' @ io_message error"
| "stop_error_fmt (StopWriteMessage error) =
     ''Couldn't write message to Unix domain socket: '' @ io_message error"

text \<open>
  \<open>unix_connect\<close> answers the two halves of the socket. \<open>copy\<close> is \<open>tokio::io::copy\<close> from the read
  half: the bytes it wrote to the standard output and its result. The block answers its result,
  the standard output, the standard error and the write half as it is left.
\<close>

definition stop_result ::
  "('path, 'perr) wire_env \<Rightarrow> 'w poll_write_fn \<Rightarrow> 'w poll_sync_fn \<Rightarrow> nat \<Rightarrow>
     (string \<Rightarrow> io_error + 'r \<times> 'w) \<Rightarrow> ('r \<Rightarrow> bytes \<times> (io_error + u64)) \<Rightarrow> stop_args \<Rightarrow>
     ((stop_error + unit) \<times> bytes \<times> string \<times> 'w option) option" where
  "stop_result E pw pf n unix_connect copy args =
     (case unix_connect (stop_socket args) of
        Inl e \<Rightarrow> Some (Err (StopConnectToSocket e), [], [], None)
      | Inr (read_half, whalf) \<Rightarrow>
          (case sink_send E pw pf n StopDaemon (Sender_new whalf) of
             None \<Rightarrow> None
           | Some (Inl e, s) \<Rightarrow> Some (Err (StopWriteMessage e), [], [], Some (swriter s))
           | Some (Inr _, s) \<Rightarrow>
               (case copy read_half of
                  (out, Inl io_err) \<Rightarrow>
                    Some (Ok (), out, eprintln (''Couldn't copy bytes to stdout: '' @ io_message io_err),
                      Some (swriter s))
                | (out, Inr _) \<Rightarrow> Some (Ok (), out, [], Some (swriter s)))))"

definition stop ::
  "('path, 'perr) wire_env \<Rightarrow> 'w poll_write_fn \<Rightarrow> 'w poll_sync_fn \<Rightarrow> nat \<Rightarrow>
     (string \<Rightarrow> io_error + 'r \<times> 'w) \<Rightarrow> ('r \<Rightarrow> bytes \<times> (io_error + u64)) \<Rightarrow> stop_args \<Rightarrow>
     (process_end \<times> 'w option) option" where
  "stop E pw pf n unix_connect copy args =
     map_option (\<lambda>(res, out, err, w).
       (case res of
          Inl stop_error \<Rightarrow> \<lparr>p_stdout = out, p_stderr = err @ eprintln (stop_error_fmt stop_error), p_exit = 1\<rparr>
        | Inr _ \<Rightarrow> \<lparr>p_stdout = out, p_stderr = err, p_exit = 0\<rparr>, w))
       (stop_result E pw pf n unix_connect copy args)"

section \<open>\<open>run\<close>\<close>

text \<open>\<open>str::split\<close> on a one-byte pattern, and \<open>collect\<close> into a \<open>Result\<close>.\<close>

fun split_on :: "char \<Rightarrow> string \<Rightarrow> string list" where
  "split_on c [] = [[]]"
| "split_on c (d # s) =
     (if d = c then [] # split_on c s
      else (case split_on c s of [] \<Rightarrow> [[d]] | w # ws \<Rightarrow> (d # w) # ws))"

fun collect_results :: "('e + 'a) list \<Rightarrow> 'e + 'a list" where
  "collect_results [] = Ok []"
| "collect_results (Inl e # rs) = Err e"
| "collect_results (Inr x # rs) = map_ok (\<lambda>xs. x # xs) (collect_results rs)"

definition parse_upstream_caches :: "(string \<Rightarrow> 'x + 'url) \<Rightarrow> string \<Rightarrow> 'x + 'url list" where
  "parse_upstream_caches parse_url value' =
     collect_results (map parse_url (filter (\<lambda>value. value \<noteq> []) (split_on CHR '','' value')))"

text \<open>A raw file descriptor is an \<open>i32\<close>.\<close>

record 'url run_args =
  socket :: string
  ready_fd :: "int option"
  upstream_caches :: "'url list"
  sub60_cache_args :: sub60_cache_run_args
  run_cache :: any_cache_kind

definition show_i32 :: "int \<Rightarrow> string" where
  "show_i32 i = (if i < 0 then CHR ''-'' # show_nat (nat (- i)) else show_nat (nat i))"

datatype ('x, 'ne) start_error =
    BindSocket io_error
  | ConnectToCache "'x sub60_cache_connect_error"
  | OpenNixStore 'ne

fun start_error_fmt :: "('ne \<Rightarrow> string) \<Rightarrow> ('x, 'ne) start_error \<Rightarrow> string" where
  "start_error_fmt show_ne (BindSocket io_error) = ''Couldn't bind to Unix domain socket: '' @ io_message io_error"
| "start_error_fmt show_ne (ConnectToCache error) = ''couldn't build HTTP client''"
| "start_error_fmt show_ne (OpenNixStore error) = ''Couldn't open Nix store: '' @ show_ne error"

text \<open>
  \<open>new_cache\<close> is \<open>AnyCache::new\<close>, or \<open>Sub60Cache::connect\<close> when the crate is built with the
  feature \<open>sub60-cache\<close>. The future that \<open>start\<close> returns is represented by what it runs the
  event loop on.
\<close>

definition start ::
  "(string \<Rightarrow> io_error + 'listener) \<Rightarrow> 'ne + 'store \<Rightarrow>
     ('url run_args \<Rightarrow> ('x sub60_cache_connect_error + 'cache) outcome) \<Rightarrow> 'url run_args \<Rightarrow>
     (('x, 'ne) start_error + 'listener \<times> 'store \<times> 'cache) outcome" where
  "start bind open_store new_cache args =
     (case bind (socket args) of
        Inl e \<Rightarrow> Done (Err (BindSocket e))
      | Inr listener \<Rightarrow>
          (case open_store of
             Inl e \<Rightarrow> Done (Err (OpenNixStore e))
           | Inr nix_store \<Rightarrow>
               map_outcome
                 (\<lambda>res. bind_result (map_err ConnectToCache res) (\<lambda>cache. Ok (listener, nix_store, cache)))
                 (new_cache args)))"

text \<open>The readiness file receives a zero byte, or a one and the error.\<close>

definition signal_readiness ::
  "'f writer_ops \<Rightarrow> ('ne \<Rightarrow> string) \<Rightarrow> ('x, 'ne) start_error + 'd \<Rightarrow> 'f \<Rightarrow> (io_error + unit) \<times> 'f" where
  "signal_readiness W show_ne start_res ready_file =
     (case start_res of
        Inr _ \<Rightarrow> write_all W [0] ready_file
      | Inl start_error \<Rightarrow>
          (case write_all W [1] ready_file of
             (Inl e, f) \<Rightarrow> (Err e, f)
           | (Inr _, f) \<Rightarrow> write_all W (as_bytes (start_error_fmt show_ne start_error)) f))"

text \<open>How \<open>run\<close> ends: with the event loop, or by exiting.\<close>

datatype 'd run_end = RunsEventLoop 'd | ExitsWith nat

definition run ::
  "'f writer_ops \<Rightarrow> (int \<Rightarrow> 'f) \<Rightarrow> ('ne \<Rightarrow> string) \<Rightarrow> (string \<Rightarrow> io_error + 'listener) \<Rightarrow> 'ne + 'store \<Rightarrow>
     ('url run_args \<Rightarrow> ('x sub60_cache_connect_error + 'cache) outcome) \<Rightarrow> 'url run_args \<Rightarrow>
     (('listener \<times> 'store \<times> 'cache) run_end \<times> 'f option \<times> string) outcome" where
  "run W from_raw_fd show_ne bind open_store new_cache args =
     map_outcome (\<lambda>start_res.
       let (ready, err) =
             (case ready_fd args of
                None \<Rightarrow> (None, [])
              | Some fd \<Rightarrow>
                  (case signal_readiness W show_ne start_res (from_raw_fd fd) of
                     (Inl io_err, f) \<Rightarrow>
                       (Some f, eprintln (''Couldn't write to file descriptor '' @ show_i32 fd @ '': '' @ io_message io_err))
                   | (Inr _, f) \<Rightarrow> (Some f, [])))
       in (case start_res of
             Inr d \<Rightarrow> (RunsEventLoop d, ready, err)
           | Inl start_error \<Rightarrow>
               (ExitsWith 1, ready,
                err @ (if ready_fd args = None then eprintln (start_error_fmt show_ne start_error) else []))))
       (start bind open_store new_cache args)"

section \<open>Accepting connections\<close>

text \<open>
  \<open>poll_next\<close> of \<open>UnixStreams\<close>: what it answers, what it prints, and the listener. A poll whose
  loop never ends is \<open>None\<close>.
\<close>

partial_function (option) unix_streams_poll_next ::
  "('l \<Rightarrow> (io_error + 's) poll \<times> 'l) \<Rightarrow> 'l \<Rightarrow> ('s option poll \<times> string \<times> 'l) option" where
  "unix_streams_poll_next poll_accept listener =
     (case poll_accept listener of
        (Pending, l) \<Rightarrow> Some (Pending, [], l)
      | (Ready (Inr stream), l) \<Rightarrow> Some (Ready (Some stream), [], l)
      | (Ready (Inl err), l) \<Rightarrow>
          Option.bind (unix_streams_poll_next poll_accept l)
            (\<lambda>(a, log, l'). Some (a, eprintln (''Couldn't accept stream: '' @ io_message err) @ log, l')))"

declare unix_streams_poll_next.simps [code]

definition unix_streams_is_terminated :: "'l \<Rightarrow> bool" where
  "unix_streams_is_terminated listener = False"

end
