(* ===== verification/Nix_Store.thy ===== *)
theory Nix_Store
  imports Handle_Path Protocol "HOL-Library.List_Lexorder"
begin

text \<open>
  \<open>src/nix_store.rs\<close>: the store as the daemon sees it. The bindings to the Nix libraries
  (\<open>nixb\<close>), the NAR writer of \<open>nix_compat\<close> and the file system are parameters; the walk over
  the file system that feeds the NAR writer, the closure of a path and the reading of its infos
  are definitions.
\<close>

section \<open>Names of files\<close>

text \<open>An \<open>OsString\<close> is its bytes, and is ordered by them.\<close>

datatype os_string = OsString (os_bytes: bytes)

instantiation os_string :: linorder
begin

definition less_eq_os_string :: "os_string \<Rightarrow> os_string \<Rightarrow> bool" where
  "less_eq_os_string a b \<longleftrightarrow> os_bytes a \<le> os_bytes b"

definition less_os_string :: "os_string \<Rightarrow> os_string \<Rightarrow> bool" where
  "less_os_string a b \<longleftrightarrow> os_bytes a < os_bytes b"

instance
proof
  fix a b c :: os_string
  show "a < b \<longleftrightarrow> a \<le> b \<and> \<not> b \<le> a" "a \<le> a"
    by (auto simp: less_eq_os_string_def less_os_string_def)
  show "a \<le> b \<Longrightarrow> b \<le> c \<Longrightarrow> a \<le> c"
    by (auto simp: less_eq_os_string_def)
  show "a \<le> b \<Longrightarrow> b \<le> a \<Longrightarrow> a = b" "a \<le> b \<or> b \<le> a"
    by (auto simp: less_eq_os_string_def intro: os_string.expand)
qed

end

type_synonym fs_path = "os_string list"

section \<open>The file system and the NAR writer\<close>

datatype file_type = Directory | Symlink | RegularFile | OtherType

record metadata =
  md_file_type :: file_type
  md_mode :: u32
  md_len :: u64

text \<open>
  The calls of \<open>tokio::fs\<close> that are made. \<open>fs_read_dir\<close> is what \<open>next_entry\<close> will answer,
  in the order of the directory; \<open>fs_open\<close> the bytes that reading the file delivers.
\<close>

record fs_ops =
  fs_symlink_metadata :: "fs_path \<Rightarrow> io_error + metadata"
  fs_read_dir :: "fs_path \<Rightarrow> io_error + (io_error + os_string) list"
  fs_read_link :: "fs_path \<Rightarrow> io_error + os_string"
  fs_open :: "fs_path \<Rightarrow> io_error + bytes"
  fs_display :: "fs_path \<Rightarrow> string"

text \<open>
  The calls made on the NAR writer. A sink may refuse any of them; the log holds those that
  went through.
\<close>

datatype nar_event =
    NarOpen
  | NarDirectory
  | NarEntry bytes
  | NarClose
  | NarSymlink bytes
  | NarFile bool u64 bytes

type_synonym nar_sink = "nar_event list \<Rightarrow> nar_event \<Rightarrow> io_error option"

definition emit :: "nar_sink \<Rightarrow> nar_event \<Rightarrow> nar_event list \<Rightarrow> (io_error + unit) \<times> nar_event list" where
  "emit N ev log = (case N log ev of Some e \<Rightarrow> (Err e, log) | None \<Rightarrow> (Ok (), log @ [ev]))"

fun collect_entries :: "(io_error + os_string) list \<Rightarrow> os_string list \<Rightarrow> io_error + os_string list" where
  "collect_entries [] file_names = Ok file_names"
| "collect_entries (Inr name # es) file_names = collect_entries es (file_names @ [name])"
| "collect_entries (Inl e # es) file_names = Err e"

definition read_dir_entries :: "fs_ops \<Rightarrow> fs_path \<Rightarrow> io_error + os_string list" where
  "read_dir_entries F dir_path =
     bind_result (fs_read_dir F dir_path) (\<lambda>es. bind_result (collect_entries es []) (\<lambda>names. Ok (sort names)))"

text \<open>
  \<open>write_nar\<close> and the loop over the children of a directory. A real directory tree is finite,
  but nothing in the code bounds its depth: running out of the fuel \<open>k\<close> is \<open>None\<close>, and fuel
  beyond the depth of the tree is enough.
\<close>

fun write_node ::
    "fs_ops \<Rightarrow> nar_sink \<Rightarrow> nat \<Rightarrow> fs_path \<Rightarrow> nar_event list \<Rightarrow> ((io_error + unit) \<times> nar_event list) option"
  and write_children ::
    "fs_ops \<Rightarrow> nar_sink \<Rightarrow> nat \<Rightarrow> os_string list \<Rightarrow> fs_path \<Rightarrow> nar_event list \<Rightarrow>
       ((io_error + unit) \<times> nar_event list) option" where
  "write_node F N 0 node_path log = None"
| "write_node F N (Suc k) node_path log =
     (case fs_symlink_metadata F node_path of
        Inl e \<Rightarrow> Some (Err e, log)
      | Inr metadata \<Rightarrow>
          (case md_file_type metadata of
             Directory \<Rightarrow>
               (case emit N NarDirectory log of
                  (Inl e, log1) \<Rightarrow> Some (Err e, log1)
                | (Inr _, log1) \<Rightarrow>
                    (case read_dir_entries F node_path of
                       Inl e \<Rightarrow> Some (Err e, log1)
                     | Inr names \<Rightarrow>
                         (case write_children F N k names node_path log1 of
                            None \<Rightarrow> None
                          | Some (Inl e, log2) \<Rightarrow> Some (Err e, log2)
                          | Some (Inr _, log2) \<Rightarrow> Some (emit N NarClose log2))))
           | Symlink \<Rightarrow>
               (case fs_read_link F node_path of
                  Inl e \<Rightarrow> Some (Err e, log)
                | Inr target \<Rightarrow> Some (emit N (NarSymlink (os_bytes target)) log))
           | RegularFile \<Rightarrow>
               (case fs_open F node_path of
                  Inl e \<Rightarrow> Some (Err e, log)
                | Inr contents \<Rightarrow>
                    Some (emit N (NarFile (md_mode metadata AND 64 \<noteq> 0) (md_len metadata) contents) log))
           | OtherType \<Rightarrow>
               Some (Err (IoError InvalidData (''unsupported file type at '' @ fs_display F node_path)), log)))"
| "write_children F N k [] child_path log = Some (Ok (), log)"
| "write_children F N k (child_name # names) child_path log =
     (case emit N (NarEntry (os_bytes child_name)) log of
        (Inl e, log1) \<Rightarrow> Some (Err e, log1)
      | (Inr _, log1) \<Rightarrow>
          (let child_path' = child_path @ [child_name] in
           case write_node F N k child_path' log1 of
             None \<Rightarrow> None
           | Some (Inl e, log2) \<Rightarrow> Some (Err e, log2)
           | Some (Inr _, log2) \<Rightarrow> write_children F N k names (butlast child_path') log2))"

text \<open>
  The NAR writer passes its buffers on with \<open>AsyncWriteExt::write_all\<close>: what a \<open>poll_write\<close>
  left over is written again, a pending writer is polled again with the same buffer, and a
  writer that takes nothing or fails ends it. The value has the buffers of all the polls.
\<close>

function write_all_calls :: "bytes \<Rightarrow> script_writer \<Rightarrow> bytes list \<times> (io_error + unit) \<times> script_writer" where
  "write_all_calls buf w =
     (if buf = [] then ([], Ok (), w)
      else
        (case sw_poll_write buf w of
           (Pending, w') \<Rightarrow> apfst ((#) buf) (write_all_calls buf w')
         | (Ready (Inl e), w') \<Rightarrow> ([buf], Err e, w')
         | (Ready (Inr n), w') \<Rightarrow>
             if n = 0 then ([buf], Err (IoError WriteZero ''write zero''), w')
             else apfst ((#) buf) (write_all_calls (drop n buf) w')))"
  by pat_completeness auto
termination
  by (relation "measure (\<lambda>(buf, w). length buf + length (w_script w))")
    (auto split: list.splits write_event.splits)

declare write_all_calls.simps [simp del]

fun write_bufs :: "bytes list \<Rightarrow> script_writer \<Rightarrow> bytes list \<times> (io_error + unit) \<times> script_writer" where
  "write_bufs [] w = ([], Ok (), w)"
| "write_bufs (buf # bufs) w =
     (case write_all_calls buf w of
        (calls, Inl e, w') \<Rightarrow> (calls, Err e, w')
      | (calls, Inr _, w') \<Rightarrow> apfst ((@) calls) (write_bufs bufs w'))"

text \<open>
  \<open>NixStore::write_nar\<close>: opening the NAR writer and walking over the files, on a writer that
  takes everything.
\<close>

definition walk_store_path ::
  "fs_ops \<Rightarrow> nar_sink \<Rightarrow> nat \<Rightarrow> string \<Rightarrow> ((io_error + unit) \<times> nar_event list) option" where
  "walk_store_path F N k store_path =
     (case emit N NarOpen [] of
        (Inl e, log) \<Rightarrow> Some (Err e, log)
      | (Inr _, log) \<Rightarrow> write_node F N k [OsString (as_bytes store_path)] log)"

text \<open>
  The same as a run on the writer it was given: what it polls the writer with, whether it closes
  it and its result. \<open>enc\<close> are the buffers the NAR writer writes for a call, \<open>part\<close> those it
  wrote for a call that it then refused (when it fails to read a file, say), and \<open>shutdown\<close> is
  what closing the writer answers. Walking only reads, so what the walk does after a failed
  write cannot be seen: the run is the walk up to the first write that fails.
\<close>

definition nix_store_write_nar ::
  "fs_ops \<Rightarrow> nar_sink \<Rightarrow> (nar_event \<Rightarrow> bytes list) \<Rightarrow> (nar_event list \<Rightarrow> bytes list) \<Rightarrow> io_error + unit \<Rightarrow> nat \<Rightarrow>
     script_writer \<Rightarrow> string \<Rightarrow> io_error nar_writes option" where
  "nix_store_write_nar F N enc part shutdown k writer store_path =
     map_option
       (\<lambda>(walked, log).
          let refused = (case walked of Inl e \<Rightarrow> part log | Inr _ \<Rightarrow> []);
              (calls, written, w') = write_bufs (concat (map enc log) @ refused) writer;
              res = bind_result written (\<lambda>_. walked)
          in \<lparr>nw_calls = calls, nw_closed = (res = Ok () \<and> shutdown = Ok ()),
              nw_result = bind_result res (\<lambda>_. shutdown)\<rparr>)
       (walk_store_path F N k store_path)"

section \<open>The bindings to Nix\<close>

record ('np, 'info, 'ne, 'rawhash, 'digest, 'name, 'sig, 'ca, 'x) nixb_env =
  store_parse_path :: "bytes \<Rightarrow> 'ne + 'np"
  query_path_info :: "'np \<Rightarrow> 'ne + 'info"
  get_fs_closure :: "'np \<Rightarrow> 'np list \<times> ('ne + unit)"
  np_hash :: "'np \<Rightarrow> 'ne + 'rawhash"
  np_name :: "'np \<Rightarrow> string"
  digest_new :: "'rawhash \<Rightarrow> 'digest"
  parse_name :: "string \<Rightarrow> 'x + 'name"
  from_message :: "string \<Rightarrow> 'ne"
  debug_str :: "string \<Rightarrow> string"
  show_parse_error :: "'x \<Rightarrow> string"
  with_ca :: "'info \<Rightarrow> 'ne + string option"
  parse_ca :: "string \<Rightarrow> 'x + 'ca"
  get_deriver :: "'info \<Rightarrow> 'ne + 'np option"
  with_references :: "'info \<Rightarrow> 'ne + 'np list"
  with_sigs :: "'info \<Rightarrow> 'ne + bytes list"
  parse_sig :: "string \<Rightarrow> 'x + 'sig"
  from_utf8_lossy :: "bytes \<Rightarrow> string"

record ('digest, 'name) store_basename =
  bn_hash :: 'digest
  bn_name :: 'name

record ('digest, 'name) store_path =
  sp_store_dir :: store_dir
  sp_basename :: "('digest, 'name) store_basename"

definition nix_parse_path ::
  "('np, 'info, 'ne, 'rawhash, 'digest, 'name, 'sig, 'ca, 'x) nixb_env \<Rightarrow>
     (('digest, 'name) store_path \<Rightarrow> string) \<Rightarrow> ('digest, 'name) store_path \<Rightarrow> 'ne + 'np" where
  "nix_parse_path X path_str store_path = store_parse_path X (as_bytes (path_str store_path) @ [0])"

definition basename ::
  "('np, 'info, 'ne, 'rawhash, 'digest, 'name, 'sig, 'ca, 'x) nixb_env \<Rightarrow> 'np \<Rightarrow> 'ne + ('digest, 'name) store_basename" where
  "basename X np =
     bind_result (np_hash X np) (\<lambda>hash.
     bind_result
       (map_err (\<lambda>err. from_message X (''couldn't parse '' @ debug_str X (np_name X np) @
          '' into a store name: '' @ show_parse_error X err)) (parse_name X (np_name X np)))
       (\<lambda>name. Ok \<lparr>bn_hash = digest_new X hash, bn_name = name\<rparr>))"

text \<open>
  The callback of \<open>store_closure\<close>: once the result is an error it stays one.
\<close>

definition push_path ::
  "('np, 'info, 'ne, 'rawhash, 'digest, 'name, 'sig, 'ca, 'x) nixb_env \<Rightarrow> store_dir \<Rightarrow> 'np \<Rightarrow>
     'ne + ('digest, 'name) store_path list \<Rightarrow> 'ne + ('digest, 'name) store_path list" where
  "push_path X dir np res =
     (case res of
        Inl e \<Rightarrow> Inl e
      | Inr paths \<Rightarrow>
          (case basename X np of
             Inl err \<Rightarrow> Err err
           | Inr b \<Rightarrow> Ok (paths @ [\<lparr>sp_store_dir = dir, sp_basename = b\<rparr>])))"

definition store_closure ::
  "('np, 'info, 'ne, 'rawhash, 'digest, 'name, 'sig, 'ca, 'x) nixb_env \<Rightarrow>
     (('digest, 'name) store_path \<Rightarrow> string) \<Rightarrow> ('digest, 'name) store_path \<Rightarrow>
     'ne + ('digest, 'name) store_path list" where
  "store_closure X path_str store_path =
     bind_result (nix_parse_path X path_str store_path) (\<lambda>np.
       let (visited, result) = get_fs_closure X np;
           res = fold (push_path X (sp_store_dir store_path)) visited (Ok [])
       in bind_result result (\<lambda>_. res))"

text \<open>
  The callbacks that answer \<open>ControlFlow\<close>: the first \<open>Break\<close> ends the iteration.
\<close>

fun visit_until_break :: "('a \<Rightarrow> 'e + 'b) \<Rightarrow> 'a list \<Rightarrow> 'b list \<Rightarrow> 'e + 'b list" where
  "visit_until_break f [] acc = Ok acc"
| "visit_until_break f (x # xs) acc =
     (case f x of Inl e \<Rightarrow> Err e | Inr y \<Rightarrow> visit_until_break f xs (acc @ [y]))"

definition signature_from_bytes ::
  "('np, 'info, 'ne, 'rawhash, 'digest, 'name, 'sig, 'ca, 'x) nixb_env \<Rightarrow> bytes \<Rightarrow> 'ne + 'sig" where
  "signature_from_bytes X bs =
     bind_result
       (map_err (\<lambda>_. from_message X (''signature is not valid UTF-8: '' @ debug_str X (from_utf8_lossy X bs)))
          (from_utf8 bs))
       (\<lambda>sig_str. map_err (\<lambda>err. from_message X (''couldn't parse '' @ debug_str X sig_str @
          '' into signature: '' @ show_parse_error X err)) (parse_sig X sig_str))"

definition nix_references ::
  "('np, 'info, 'ne, 'rawhash, 'digest, 'name, 'sig, 'ca, 'x) nixb_env \<Rightarrow> 'info \<Rightarrow>
     'ne + ('digest, 'name) store_basename list" where
  "nix_references X info = bind_result (with_references X info) (\<lambda>nps. visit_until_break (basename X) nps [])"

definition nix_signatures ::
  "('np, 'info, 'ne, 'rawhash, 'digest, 'name, 'sig, 'ca, 'x) nixb_env \<Rightarrow> 'info \<Rightarrow> 'ne + 'sig list" where
  "nix_signatures X info = bind_result (with_sigs X info) (\<lambda>sigs. visit_until_break (signature_from_bytes X) sigs [])"

definition nix_deriver ::
  "('np, 'info, 'ne, 'rawhash, 'digest, 'name, 'sig, 'ca, 'x) nixb_env \<Rightarrow> 'info \<Rightarrow>
     'ne + ('digest, 'name) store_basename option" where
  "nix_deriver X info =
     bind_result (get_deriver X info) (\<lambda>d. case d of None \<Rightarrow> Ok None | Some np \<Rightarrow> map_ok Some (basename X np))"

definition nix_content_address ::
  "('np, 'info, 'ne, 'rawhash, 'digest, 'name, 'sig, 'ca, 'x) nixb_env \<Rightarrow> 'info \<Rightarrow> 'ne + 'ca option" where
  "nix_content_address X info =
     bind_result (with_ca X info) (\<lambda>c. case c of None \<Rightarrow> Ok None
       | Some ca \<Rightarrow> map_ok Some (map_err (\<lambda>err. from_message X (''couldn't parse '' @ debug_str X ca @
           '' into a CA: '' @ show_parse_error X err)) (parse_ca X ca)))"

definition nix_path_infos ::
  "('np, 'info, 'ne, 'rawhash, 'digest, 'name, 'sig, 'ca, 'x) nixb_env \<Rightarrow>
     (('digest, 'name) store_path \<Rightarrow> string) \<Rightarrow> ('digest, 'name) store_path \<Rightarrow>
     'ne + (('digest, 'name) store_basename, 'sig, 'ca, 'ne) path_infos" where
  "nix_path_infos X path_str store_path =
     bind_result (nix_parse_path X path_str store_path) (\<lambda>np.
     map_ok (\<lambda>info. \<lparr>references = nix_references X info, deriver = nix_deriver X info,
         signatures = nix_signatures X info, content_address = nix_content_address X info\<rparr>)
       (query_path_info X np))"

end
