(* ===== verification/Runtime.thy ===== *)
theory Runtime
  imports Commands Nix_Store
begin

text \<open>
  The glue between the program and its runtime: \<open>src/tokio.rs\<close> (the runtime, tasks and their join
  handles), the traits of \<open>src/context.rs\<close> that the event loop is generic in and their instances
  in \<open>src/real_context.rs\<close> and \<open>src/nix_store.rs\<close>, \<open>src/lib.rs\<close> (the dispatch of the subcommands)
  and \<open>src/main.rs\<close>.
\<close>

section \<open>Tasks\<close>

text \<open>
  A spawned future as its \<open>tokio::task::JoinHandle\<close> shows it: ready with the output, ready with
  an error once the task panicked, and pending as long as the task runs. A future is represented
  by how it ends, \<open>None\<close> when it runs for ever.
\<close>

datatype join_error = TaskPanicked

fun spawned_poll :: "'a outcome option \<Rightarrow> (join_error + 'a) poll" where
  "spawned_poll (Some (Done output)) = Ready (Ok output)"
| "spawned_poll (Some Panicked) = Ready (Err TaskPanicked)"
| "spawned_poll (Some Blocked) = Pending"
| "spawned_poll None = Pending"

text \<open>\<open>TokioJoinHandle::poll\<close>: the panic of a task goes on in the task that waits for it.\<close>

fun join_handle_poll :: "(join_error + 'a) poll \<Rightarrow> 'a poll outcome" where
  "join_handle_poll Pending = Done Pending"
| "join_handle_poll (Ready (Inr output)) = Done (Ready output)"
| "join_handle_poll (Ready (Inl join_err)) = Panicked"

definition spawn :: "'a outcome option \<Rightarrow> 'a poll outcome" where
  "spawn future = join_handle_poll (spawned_poll future)"

lemma spawn_cases [simp]:
  "spawn f = Done (Ready x) \<longleftrightarrow> f = Some (Done x)"
  "spawn f = Panicked \<longleftrightarrow> f = Some Panicked"
  by (cases f rule: spawned_poll.cases; simp add: spawn_def)+

section \<open>The runtime\<close>

text \<open>\<open>build\<close> is what building a runtime with \<open>tokio\<close> answers; \<open>Tokio::new\<close> panics if it fails.\<close>

record 'rt tokio =
  tokio_inner :: 'rt

definition tokio_new :: "'e + 'rt \<Rightarrow> 'rt tokio outcome" where
  "tokio_new build = (case build of Inl err \<Rightarrow> Panicked | Inr runtime \<Rightarrow> Done \<lparr>tokio_inner = runtime\<rparr>)"

text \<open>Blocking on a future answers what the future answers, after whatever the runtime does.\<close>

definition block_on :: "('rt \<Rightarrow> 'a) \<Rightarrow> 'rt tokio \<Rightarrow> 'a" where
  "block_on future t = future (tokio_inner t)"

section \<open>The traits of the context\<close>

text \<open>
  \<open>Nix\<close>, \<open>HttpClient\<close> and \<open>Context\<close> as records of their operations, each operation by its
  result. \<open>Spawner\<close> and \<open>JoinHandle\<close> have one instance, \<open>spawn\<close> above.
\<close>

record ('path, 'base, 'sig, 'ca, 'pe, 'ce, 'we) nix_ops =
  nix_op_get_path_infos :: "'path \<Rightarrow> 'pe + ('base, 'sig, 'ca, 'pe) path_infos"
  nix_op_store_closure :: "'path \<Rightarrow> 'ce + 'path list"
  nix_op_write_nar :: "'path \<Rightarrow> 'we nar_writes"

record ('url, 'he) http_client_ops =
  http_op_get :: "'url \<Rightarrow> 'he + nat"

record ('perr, 'client, 'w, 'rep, 'nix) context_ops =
  ctx_handle_rx_error :: "'perr receive_error \<Rightarrow> string"
  ctx_http_client :: 'client
  ctx_new_stop_progress_reporter :: "'w \<Rightarrow> 'rep"
  ctx_nix :: 'nix

text \<open>\<open>NixStore\<close> as a \<open>Nix\<close>; \<open>nars\<close> are the runs of its \<open>write_nar\<close>.\<close>

definition nix_store_ops ::
  "('np, 'info, 'ne, 'rawhash, 'digest, 'name, 'sig, 'ca, 'x) nixb_env \<Rightarrow>
     (('digest, 'name) store_path \<Rightarrow> string) \<Rightarrow> (('digest, 'name) store_path \<Rightarrow> 'we nar_writes) \<Rightarrow>
     (('digest, 'name) store_path, ('digest, 'name) store_basename, 'sig, 'ca, 'ne, 'ne, 'we) nix_ops" where
  "nix_store_ops X path_str nars =
     \<lparr>nix_op_get_path_infos = nix_path_infos X path_str, nix_op_store_closure = store_closure X path_str,
      nix_op_write_nar = nars\<rparr>"

lemma nix_store_ops_simps [simp]:
  "nix_op_get_path_infos (nix_store_ops X path_str nars) = nix_path_infos X path_str"
  "nix_op_store_closure (nix_store_ops X path_str nars) = store_closure X path_str"
  "nix_op_write_nar (nix_store_ops X path_str nars) = nars"
  by (simp_all add: nix_store_ops_def)

section \<open>The context of the event loop\<close>

record ('client, 'store, 'spawner) real_context =
  http_client :: 'client
  nix_store :: 'store
  rc_spawner :: 'spawner

definition real_context_new :: "'client \<Rightarrow> 'store \<Rightarrow> 'spawner \<Rightarrow> ('client, 'store, 'spawner) real_context" where
  "real_context_new client store spawner =
     \<lparr>http_client = client, nix_store = store, rc_spawner = spawner\<rparr>"

definition handle_rx_error :: "('perr \<Rightarrow> string) \<Rightarrow> 'perr receive_error \<Rightarrow> string" where
  "handle_rx_error show_perr rx_error = eprintln (receive_error_fmt show_perr rx_error)"

definition new_stop_progress_reporter :: "'w \<Rightarrow> 'w stop_progress_reporter" where
  "new_stop_progress_reporter writer = reporter_new writer"

text \<open>\<open>client_send\<close> is what sending a GET request with \<open>reqwest\<close> answers.\<close>

definition http_client_get :: "('url \<Rightarrow> 'x + 'x response) \<Rightarrow> 'url \<Rightarrow> 'x + nat" where
  "http_client_get client_send url = map_ok resp_status (client_send url)"

definition real_context_ops ::
  "('perr \<Rightarrow> string) \<Rightarrow> ('url \<Rightarrow> 'x + 'x response) \<Rightarrow>
     ('client, ('path, 'base, 'sig, 'ca, 'pe, 'ce, 'we) nix_ops, 'spawner) real_context \<Rightarrow>
     ('perr, ('url, 'x) http_client_ops, 'w, 'w stop_progress_reporter, ('path, 'base, 'sig, 'ca, 'pe, 'ce, 'we) nix_ops)
       context_ops" where
  "real_context_ops show_perr client_send ctx =
     \<lparr>ctx_handle_rx_error = handle_rx_error show_perr,
      ctx_http_client = \<lparr>http_op_get = http_client_get client_send\<rparr>,
      ctx_new_stop_progress_reporter = new_stop_progress_reporter, ctx_nix = nix_store ctx\<rparr>"

section \<open>Opening the store\<close>

text \<open>
  \<open>NixStore::open\<close>, over the calls of the bindings it makes: a fresh context \<open>ctx\<close>, which
  initialising the library may change, and opening the store with it.
\<close>

definition nix_store_open ::
  "'ctx \<Rightarrow> ('ctx \<Rightarrow> ('ne + 'init) \<times> 'ctx) \<Rightarrow> ('init \<Rightarrow> 'ctx \<Rightarrow> 'ne + 'store) \<Rightarrow> 'ne + 'store" where
  "nix_store_open ctx init store_open =
     (case init ctx of
        (Inl e, ctx') \<Rightarrow> Err e
      | (Inr i, ctx') \<Rightarrow> bind_result (store_open i ctx') Ok)"

section \<open>Subcommands\<close>

datatype ('url, 'path) command =
    Run "'url run_args"
  | Push "'path push_args"
  | Stop stop_args

text \<open>What the subcommands use of the operating system: the parameters of \<open>Commands\<close>.\<close>

record ('path, 'perr, 'r, 'w) client_os =
  co_wire :: "('path, 'perr) wire_env"
  co_poll_write :: "'w poll_write_fn"
  co_poll_flush :: "'w poll_sync_fn"
  co_poll_close :: "'w poll_sync_fn"
  co_turns :: nat
  co_connect :: "string \<Rightarrow> io_error + 'r \<times> 'w"
  co_copy :: "'r \<Rightarrow> bytes \<times> (io_error + u64)"

record ('f, 'ctx, 'init, 'ne, 'listener, 'store, 'url, 'path, 'base, 'hash, 'narinfo, 'etag, 'x) daemon_os =
  do_file :: "'f writer_ops"
  do_from_raw_fd :: "int \<Rightarrow> 'f"
  do_show_nix_error :: "'ne \<Rightarrow> string"
  do_bind :: "string \<Rightarrow> io_error + 'listener"
  do_nix_context :: 'ctx
  do_nix_init :: "'ctx \<Rightarrow> ('ne + 'init) \<times> 'ctx"
  do_nix_open :: "'init \<Rightarrow> 'ctx \<Rightarrow> 'ne + 'store"
  do_sub60 :: "('url, 'path, 'base, 'hash, 'narinfo, 'etag, 'x) sub60_env"

text \<open>
  The build without the feature \<open>sub60-cache\<close>, in which the cache is an \<open>AnyCache\<close>. Every
  subcommand first makes a runtime and then blocks on its future. The daemon that started goes on with the event loop, the subject of \<open>Daemon\<close>.
\<close>

definition lib_run ::
  "'e + 'rt \<Rightarrow> ('path, 'perr, 'r, 'w) client_os \<Rightarrow>
     ('f, 'ctx, 'init, 'ne, 'listener, 'store, 'url, 'path, 'base, 'hash, 'narinfo, 'etag, 'x) daemon_os \<Rightarrow>
     ('url, 'path) command \<Rightarrow>
     ((('listener \<times> 'store \<times> 'url any_cache) run_end \<times> 'f option \<times> string) outcome +
       (process_end \<times> 'w option) option) outcome" where
  "lib_run rt C D command =
     map_outcome
       (block_on (\<lambda>_.
          case command of
            Run args \<Rightarrow>
              Inl (run (do_file D) (do_from_raw_fd D) (do_show_nix_error D) (do_bind D)
                (nix_store_open (do_nix_context D) (do_nix_init D) (do_nix_open D))
                (\<lambda>args. any_cache_new (do_sub60 D) (run_cache args) (sub60_cache_args args)) args)
          | Push args \<Rightarrow>
              Inr (push (co_wire C) (co_poll_write C) (co_poll_close C) (co_turns C)
                (\<lambda>path. map_ok snd (co_connect C path)) args)
          | Stop args \<Rightarrow>
              Inr (stop (co_wire C) (co_poll_write C) (co_poll_flush C) (co_turns C) (co_connect C) (co_copy C) args)))
       (tokio_new rt)"

section \<open>The program\<close>

record ('url, 'path) cli =
  cli_command :: "('url, 'path) command"

text \<open>\<open>clap\<close> parses the command line (\<open>parse\<close>), or prints a message and ends the process.\<close>

definition cli_main ::
  "(string list \<Rightarrow> process_end + ('url, 'path) cli) \<Rightarrow> 'e + 'rt \<Rightarrow> ('path, 'perr, 'r, 'w) client_os \<Rightarrow>
     ('f, 'ctx, 'init, 'ne, 'listener, 'store, 'url, 'path, 'base, 'hash, 'narinfo, 'etag, 'x) daemon_os \<Rightarrow> string list \<Rightarrow>
     process_end +
     ((('listener \<times> 'store \<times> 'url any_cache) run_end \<times> 'f option \<times> string) outcome +
       (process_end \<times> 'w option) option) outcome" where
  "cli_main parse rt C D argv = map_ok (\<lambda>cli. lib_run rt C D (cli_command cli)) (parse argv)"

end
