(* ===== verification/Daemon.thy ===== *)
theory Daemon
  imports Runtime
begin

text \<open>
  The daemon put together: the event loop (\<open>Event_Loop\<close>) with the tasks it spawns. Where a label
  of the event loop carries the result of a task, it has to be the result that task computes: the
  closure of the store (\<open>Nix_Store\<close>), the handling of a path (\<open>Handle_Path\<close>). A task that
  panics ends the daemon, in the build that unwinds and in the build that aborts.

  Every handler has a network state of its own, and an environment of its own: the answers a
  handler gets in a run with others in between are some function of the requests it made itself.
  \<open>Shared_Server\<close> derives these functions from the trace of one server.
\<close>

section \<open>The tasks\<close>

definition closure_task ::
  "('path, 'base, 'sig, 'ca, 'pe, 'ce, 'we) nix_ops \<Rightarrow> 'path \<Rightarrow> ('ce + 'path list) outcome option" where
  "closure_task nix store_path = Some (Done (nix_op_store_closure nix store_path))"

definition handle_task ::
  "('path \<Rightarrow> ('url, 'hash, 'path, 'base, 'sig, 'ca, 'digest, 'h, 'he, 'ie, 'we) handle_env) \<Rightarrow>
     ('path \<Rightarrow> ('hash, 'path, ('path, 'base, 'sig, 'ca, 'digest) narinfo, 'st, 'e, 's) cache_ops) \<Rightarrow>
     'url run_args \<Rightarrow> 's \<Rightarrow> 'path \<Rightarrow> (('e, 'ie, 'we) handle_path_error + u64 option) outcome option" where
  "handle_task H ops args s path =
     map_option fst (handle_store_path (H path) (ops path) (upstream_caches args) path s)"

section \<open>Steps\<close>

datatype 's daemon_state = Up 's | Crashed

text \<open>
  What a panic does depends on the build. The development build unwinds: the panic is kept in the
  join handle and goes on when the loop polls it (\<open>Unwind\<close>). The release profile of
  \<open>Cargo.toml\<close> has \<open>panic = "abort"\<close>: the process ends when the task panics (\<open>Abort\<close>).
\<close>

datatype ('l, 'path) daemon_label = Step 'l | Unwind 'path | Abort 'path

text \<open>The result that a label carries is the one its task computes.\<close>

fun task_done ::
  "('path \<Rightarrow> ('cerr + 'path list) outcome option) \<Rightarrow> ('path \<Rightarrow> 'herr handle_result outcome option) \<Rightarrow>
     ('path, 'perr, 'cerr, 'herr, 'r, 'wr) label \<Rightarrow> bool" where
  "task_done clo han (ClosureDone p res) = (spawn (clo p) = Done (Ready res))"
| "task_done clo han (PathHandled p res) = (spawn (han p) = Done (Ready res))"
| "task_done clo han l = True"

text \<open>The loop polls the join handle of a task of \<open>p\<close> that panicked.\<close>

definition unwinds ::
  "('path \<Rightarrow> ('cerr + 'path list) outcome option) \<Rightarrow> ('path \<Rightarrow> 'herr handle_result outcome option) \<Rightarrow>
     'path \<Rightarrow> ('path, 'hash, 'perr, 'cerr, 'herr, 'r, 'wr) loop_state \<Rightarrow> bool" where
  "unwinds clo han p s \<longleftrightarrow>
     phase s = Looping \<and> \<not> loop_breaks s \<and>
       (p \<in> set (store_closures s) \<and> spawn (clo p) = Panicked \<or>
        p \<in> set (handle_store_paths s) \<and> spawn (han p) = Panicked) \<or>
     phase s = Draining \<and> p \<in> set (handle_store_paths s) \<and> spawn (han p) = Panicked"

text \<open>A task of \<open>p\<close> in flight panics.\<close>

definition aborts ::
  "('path \<Rightarrow> ('cerr + 'path list) outcome option) \<Rightarrow> ('path \<Rightarrow> 'herr handle_result outcome option) \<Rightarrow>
     'path \<Rightarrow> ('path, 'hash, 'perr, 'cerr, 'herr, 'r, 'wr) loop_state \<Rightarrow> bool" where
  "aborts clo han p s \<longleftrightarrow>
     phase s \<noteq> Finished \<and>
       (p \<in> set (store_closures s) \<and> spawn (clo p) = Panicked \<or>
        p \<in> set (handle_store_paths s) \<and> spawn (han p) = Panicked)"

fun daemon_step ::
  "('path, 'perr) wire_env \<Rightarrow> 'r poll_read_fn \<Rightarrow> ('path \<Rightarrow> 'hash) \<Rightarrow>
     ('path \<Rightarrow> ('cerr + 'path list) outcome option) \<Rightarrow> ('path \<Rightarrow> 'herr handle_result outcome option) \<Rightarrow>
     (('path, 'perr, 'cerr, 'herr, 'r, 'wr) label, 'path) daemon_label \<Rightarrow>
     ('path, 'hash, 'perr, 'cerr, 'herr, 'r, 'wr) loop_state daemon_state \<Rightarrow>
     ('path, 'hash, 'perr, 'cerr, 'herr, 'r, 'wr) loop_state daemon_state option" where
  "daemon_step E rd hash clo han (Step l) (Up s) =
     (if task_done clo han l then map_option Up (loop_step E rd hash l s) else None)"
| "daemon_step E rd hash clo han (Unwind p) (Up s) = (if unwinds clo han p s then Some Crashed else None)"
| "daemon_step E rd hash clo han (Abort p) (Up s) = (if aborts clo han p s then Some Crashed else None)"
| "daemon_step E rd hash clo han l Crashed = None"

end
