(* ===== verification/Protocol_Correct.thy ===== *)
theory Protocol_Correct
  imports Protocol
begin

text \<open>
  Correctness of the wire protocol. The specification of the byte format is \<open>encode\<close> and
  \<open>decode\<close>; the sender keeps "bytes accepted so far, then bytes still buffered" equal to the
  encoding of the messages sent, for every interleaving of its operations and every behaviour of
  the writer; the receiver yields exactly \<open>decode\<close> of the bytes on the wire, for every way the
  reader splits and delays them, and the failure of a reader that fails.
\<close>

section \<open>The byte format\<close>

fun encode_message :: "('path, 'perr) wire_env \<Rightarrow> 'path message \<Rightarrow> bytes" where
  "encode_message E (PushStorePath p) = as_bytes (display_path E p) @ [PATH_SEPARATOR]"
| "encode_message E StopDaemon = [STOP_SENTINEL]"

definition encode :: "('path, 'perr) wire_env \<Rightarrow> 'path message list \<Rightarrow> bytes" where
  "encode E ms = concat (map (encode_message E) ms)"

text \<open>An item after which the receiver yields nothing more.\<close>

fun final_item :: "('path, 'perr) item \<Rightarrow> bool" where
  "final_item (Inl e) = True"
| "final_item (Inr m) = (m = StopDaemon)"

definition decode_step ::
  "('path, 'perr) wire_env \<Rightarrow> bytes \<Rightarrow> (('path, 'perr) item \<times> bytes) option" where
  "decode_step E u =
     (if u = [] then None
      else if hd u = STOP_SENTINEL then Some (Ok StopDaemon, u)
      else if PATH_SEPARATOR \<notin> set (take RECEIVE_BUF_LEN u) then None
      else Some (line_item E (takeWhile (\<lambda>b. b \<noteq> PATH_SEPARATOR) u),
                 tl (dropWhile (\<lambda>b. b \<noteq> PATH_SEPARATOR) u)))"

lemma line_item_not_stop [simp]: "line_item E l \<noteq> Ok StopDaemon"
  by (auto simp: line_item_def split: sum.splits)

lemma decode_step_shorter:
  "decode_step E u = Some (it, r) \<Longrightarrow> \<not> final_item it \<Longrightarrow> length r < length u"
  by (cases "dropWhile (\<lambda>b. b \<noteq> PATH_SEPARATOR) u")
    (auto simp: decode_step_def split: if_splits dest: in_set_takeD
      intro: order.strict_trans2 [OF _ length_dropWhile_le [of "\<lambda>b. b \<noteq> PATH_SEPARATOR"]])

function decode :: "('path, 'perr) wire_env \<Rightarrow> bytes \<Rightarrow> ('path, 'perr) item list" where
  "decode E u =
     (case decode_step E u of
        None \<Rightarrow> []
      | Some (it, r) \<Rightarrow> it # (if final_item it then [] else decode E r))"
  by pat_completeness auto
termination
  by (relation "measure (\<lambda>(E, u). length u)") (auto dest: decode_step_shorter)

declare decode.simps [simp del]

text \<open>
  What the development relies on of the crates it does not contain: \<open>memchr\<close> returns the index
  of the first occurrence; a store path prints as UTF-8 text that parses back to it and holds
  no NUL; the protocol further needs that it holds no newline and fits the receiver's buffer.
\<close>

definition memchr_ok :: "('path, 'perr) wire_env \<Rightarrow> bool" where
  "memchr_ok E \<longleftrightarrow>
     (\<forall>b bs. memchr E b bs =
        (if b \<in> set bs then Some (length (takeWhile (\<lambda>x. x \<noteq> b) bs)) else None))"

definition path_ok :: "('path, 'perr) wire_env \<Rightarrow> 'path \<Rightarrow> bool" where
  "path_ok E p \<longleftrightarrow>
     (let s = display_path E p in
        utf8_valid (as_bytes s) \<and> parse_path E s = Ok p \<and> STOP_SENTINEL \<notin> set (as_bytes s) \<and>
        PATH_SEPARATOR \<notin> set (as_bytes s) \<and> length s < RECEIVE_BUF_LEN)"

fun message_ok :: "('path, 'perr) wire_env \<Rightarrow> 'path message \<Rightarrow> bool" where
  "message_ok E (PushStorePath p) = path_ok E p"
| "message_ok E StopDaemon = True"

lemma encode_simps [simp, wire_simps]:
  "encode E [] = []"
  "encode E (m # ms) = encode_message E m @ encode E ms"
  "encode E (ms @ ms') = encode E ms @ encode E ms'"
  by (simp_all add: encode_def)

lemma constants_distinct [simp]: "PATH_SEPARATOR \<noteq> STOP_SENTINEL" "STOP_SENTINEL \<noteq> PATH_SEPARATOR"
  by (simp_all add: PATH_SEPARATOR_def STOP_SENTINEL_def)

lemma hd_not_in: "x \<notin> set xs \<Longrightarrow> x \<noteq> y \<Longrightarrow> hd (xs @ y # zs) \<noteq> x"
  by (cases xs) auto

lemma decode_step_line:
  assumes "PATH_SEPARATOR \<notin> set l" "length l < RECEIVE_BUF_LEN" "hd (l @ PATH_SEPARATOR # r) \<noteq> STOP_SENTINEL"
  shows "decode_step E (l @ PATH_SEPARATOR # r) = Some (line_item E l, r)"
proof -
  have "PATH_SEPARATOR \<in> set (take RECEIVE_BUF_LEN (l @ PATH_SEPARATOR # r))"
    using assms(2) by (cases "RECEIVE_BUF_LEN - length l") auto
  moreover have "takeWhile (\<lambda>b. b \<noteq> PATH_SEPARATOR) (l @ PATH_SEPARATOR # r) = l"
    "dropWhile (\<lambda>b. b \<noteq> PATH_SEPARATOR) (l @ PATH_SEPARATOR # r) = PATH_SEPARATOR # r"
    using assms(1) by (auto simp: takeWhile_append dropWhile_append)
  ultimately show ?thesis
    using assms(3) by (auto simp: decode_step_def)
qed

lemma line_item_path_ok: "path_ok E p \<Longrightarrow> line_item E (as_bytes (display_path E p)) = Ok (PushStorePath p)"
  by (simp add: path_ok_def line_item_def Let_def)

lemma decode_push:
  assumes "path_ok E p"
  shows "decode E (encode_message E (PushStorePath p) @ r) = Ok (PushStorePath p) # decode E r"
proof -
  let ?l = "as_bytes (display_path E p)"
  have "decode_step E (?l @ PATH_SEPARATOR # r) = Some (line_item E ?l, r)"
    using assms by (intro decode_step_line hd_not_in) (auto simp: path_ok_def Let_def)
  then show ?thesis
    using assms by (simp add: decode.simps line_item_path_ok)
qed

lemma decode_stop: "decode E (STOP_SENTINEL # r) = [Ok StopDaemon]"
  by (simp add: decode.simps decode_step_def)

lemma decode_Nil [simp]: "decode E [] = []"
  by (simp add: decode.simps decode_step_def)

text \<open>The receiver ignores whatever follows a stop message.\<close>

fun upto_stop :: "'path message list \<Rightarrow> 'path message list" where
  "upto_stop [] = []"
| "upto_stop (StopDaemon # ms) = [StopDaemon]"
| "upto_stop (m # ms) = m # upto_stop ms"

lemma decode_encode_messages:
  "list_all (message_ok E) ms \<Longrightarrow> decode E (encode E ms) = map Ok (upto_stop ms)"
  by (induction ms rule: upto_stop.induct)
    (auto simp: decode_push decode_stop simp del: encode_message.simps(1))

section \<open>The sender\<close>

lemma start_send_spec:
  "start_send E m s = (Ok (), s\<lparr>sbuf := sbuf s @ encode_message E m\<rparr>)"
  by (cases m) (simp_all add: start_send_def)

text \<open>
  The bytes handed to a sender: those its writer accepted, then those still buffered.
\<close>

definition sender_wf :: "'w sender \<Rightarrow> bool" where
  "sender_wf s \<longleftrightarrow> num_written s \<le> length (sbuf s)"

definition handed_over :: "('w \<Rightarrow> bytes) \<Rightarrow> 'w sender \<Rightarrow> bytes" where
  "handed_over acc s = acc (swriter s) @ drop (num_written s) (sbuf s)"

lemma sender_wf_new [simp]: "sender_wf (Sender_new w)"
  by (simp add: sender_wf_def Sender_new_def)

lemma handed_over_new [simp]: "handed_over acc (Sender_new w) = acc w"
  by (simp add: handed_over_def Sender_new_def)

lemma handed_over_start_send:
  "sender_wf s \<Longrightarrow> sender_wf (snd (start_send E m s)) \<and>
     handed_over acc (snd (start_send E m s)) = handed_over acc s @ encode_message E m"
  by (simp add: start_send_spec sender_wf_def handed_over_def)

lemma drain_buf_eq:
  "drain_loop pw (sbuf s) (num_written s) (swriter s) = (b, k, w) \<Longrightarrow>
     drain_buf pw s =
       (b, if b = Ready (Ok ()) then s\<lparr>sbuf := [], num_written := 0, swriter := w\<rparr>
           else s\<lparr>num_written := k, swriter := w\<rparr>)"
  by (simp add: drain_buf_def split: poll.split sum.split)

lemma sender_poll_flush_eq:
  "drain_buf pw s = (b, t) \<Longrightarrow>
     sender_poll_flush pw pf s =
       (if b = Ready (Ok ()) then (fst (pf (swriter t)), t\<lparr>swriter := snd (pf (swriter t))\<rparr>) else (b, t))"
  by (simp add: sender_poll_flush_def case_prod_beta Let_def split: poll.split sum.split)

lemma sender_poll_close_eq:
  "drain_buf pw s = (b, t) \<Longrightarrow>
     sender_poll_close pw pc s =
       (if b = Ready (Ok ()) then (fst (pc (swriter t)), t\<lparr>swriter := snd (pc (swriter t))\<rparr>) else (b, t))"
  by (simp add: sender_poll_close_def case_prod_beta Let_def split: poll.split sum.split)

context async_write
begin

lemma drain_loop_accepted:
  "drain_loop poll_write buf k w = (a, k', w') \<Longrightarrow> k \<le> length buf \<Longrightarrow>
     k' \<le> length buf \<and> accepted w' @ drop k' buf = accepted w @ drop k buf \<and>
     (a = Ready (Ok ()) \<longrightarrow> k' = length buf)"
proof (induction pw \<equiv> poll_write buf k w rule: drain_loop.induct)
  case (1 buf k w)
  show ?case
  proof (cases "k < length buf")
    case False
    with "1.prems" show ?thesis by (auto simp: drain_loop.simps [of poll_write])
  next
    case True
    obtain ans w1 where step: "poll_write (drop k buf) w = (ans, w1)"
      by (cases "poll_write (drop k buf) w")
    show ?thesis
    proof (cases "\<exists>n. ans = Ready (Ok n) \<and> n \<noteq> 0")
      case False
      with True step "1.prems" show ?thesis
        by (auto simp: drain_loop.simps [of poll_write] split: poll.splits sum.splits if_splits
            dest: write_err write_pending write_ok)
    next
      case more: True
      then obtain n where n: "ans = Ready (Ok n)" "n \<noteq> 0" by blast
      with step have ok: "n \<le> length buf - k" "accepted w1 = accepted w @ take n (drop k buf)"
        by (auto dest: write_ok)
      have "drain_loop poll_write buf (k + n) w1 = (a, k', w')"
        using True step n "1.prems"(1) by (auto simp: drain_loop.simps [of poll_write buf k])
      moreover have "k + n \<le> length buf"
        using ok True by simp
      ultimately have "k' \<le> length buf \<and> accepted w' @ drop k' buf = accepted w1 @ drop (k + n) buf \<and>
          (a = Ready (Ok ()) \<longrightarrow> k' = length buf)"
        using "1.hyps" [OF True step [symmetric] n(1) refl n(2)] by auto
      with ok show ?thesis
        by (metis add.commute append.assoc append_take_drop_id drop_drop)
    qed
  qed
qed

lemma drain_buf_handed_over:
  assumes "drain_buf poll_write s = (a, s')" "sender_wf s"
  shows "sender_wf s' \<and> handed_over accepted s' = handed_over accepted s \<and>
     (a = Ready (Ok ()) \<longrightarrow> sbuf s' = [])"
proof -
  obtain b k w where l: "drain_loop poll_write (sbuf s) (num_written s) (swriter s) = (b, k, w)"
    by (metis prod_cases3)
  show ?thesis
  proof (cases "b = Ready (Ok ())")
    case True
    then show ?thesis
      using assms drain_loop_accepted [OF l] drain_buf_eq [OF l]
      by (auto simp: sender_wf_def handed_over_def)
  next
    case False
    then show ?thesis
      using assms drain_loop_accepted [OF l] drain_buf_eq [OF l]
      by (auto simp: sender_wf_def handed_over_def)
  qed
qed

lemma flush_close_handed_over:
  assumes "sender_wf s"
    and "sender_poll_flush poll_write poll_flush s = (a, s') \<or>
         sender_poll_close poll_write poll_close s = (a, s')"
  shows "sender_wf s' \<and> handed_over accepted s' = handed_over accepted s \<and>
     (a = Ready (Ok ()) \<longrightarrow> sbuf s' = [])"
proof -
  obtain b t where d: "drain_buf poll_write s = (b, t)"
    by (cases "drain_buf poll_write s")
  have t: "sender_wf t" "handed_over accepted t = handed_over accepted s"
    "b = Ready (Ok ()) \<Longrightarrow> sbuf t = []"
    using drain_buf_handed_over [OF d assms(1)] by auto
  show ?thesis
    using assms(2) t flush_accepted [of "swriter t"] close_accepted [of "swriter t"]
    unfolding sender_poll_flush_eq [OF d] sender_poll_close_eq [OF d]
    by (cases "b = Ready (Ok ())") (auto simp: handed_over_def sender_wf_def)
qed

end

text \<open>
  A client of the sink calls its operations in any order; a flush or close that answers
  \<open>Pending\<close> or an error is called again later, or not at all. The run keeps the last answer.
\<close>

datatype 'path sink_call = Send "'path message" | Flush | Close

fun sink_run ::
  "('path, 'perr) wire_env \<Rightarrow> 'w poll_write_fn \<Rightarrow> 'w poll_sync_fn \<Rightarrow> 'w poll_sync_fn \<Rightarrow>
     (io_error + unit) poll \<Rightarrow> 'w sender \<Rightarrow> 'path sink_call list \<Rightarrow>
     (io_error + unit) poll \<times> 'w sender" where
  "sink_run E pw pf pc a s [] = (a, s)"
| "sink_run E pw pf pc a s (Send m # cs) =
     (let (r, s') = start_send E m s in sink_run E pw pf pc (Ready r) s' cs)"
| "sink_run E pw pf pc a s (Flush # cs) =
     (let (r, s') = sender_poll_flush pw pf s in sink_run E pw pf pc r s' cs)"
| "sink_run E pw pf pc a s (Close # cs) =
     (let (r, s') = sender_poll_close pw pc s in sink_run E pw pf pc r s' cs)"

fun sent_messages :: "'path sink_call list \<Rightarrow> 'path message list" where
  "sent_messages [] = []"
| "sent_messages (Send m # cs) = m # sent_messages cs"
| "sent_messages (c # cs) = sent_messages cs"

context async_write
begin

lemma sink_run_handed_over:
  "sink_run E poll_write poll_flush poll_close a s cs = (a', s') \<Longrightarrow> sender_wf s \<Longrightarrow>
     sender_wf s' \<and> handed_over accepted s' = handed_over accepted s @ encode E (sent_messages cs)"
proof (induction cs arbitrary: a s)
  case Nil
  then show ?case by simp
next
  case (Cons c cs)
  show ?case
  proof (cases c)
    case (Send m)
    have "sender_wf (snd (start_send E m s))"
      "handed_over accepted (snd (start_send E m s)) = handed_over accepted s @ encode_message E m"
      using handed_over_start_send [OF Cons.prems(2)] by blast+
    then show ?thesis
      using Cons.IH Cons.prems(1) Send by (fastforce split: prod.splits)
  next
    case Flush
    then show ?thesis
      using Cons flush_close_handed_over [OF Cons.prems(2)] by (fastforce split: prod.splits)
  next
    case Close
    then show ?thesis
      using Cons flush_close_handed_over [OF Cons.prems(2)] by (fastforce split: prod.splits)
  qed
qed

lemma sink_run_flushed:
  assumes "sink_run E poll_write poll_flush poll_close a s cs = (Ready (Ok ()), s')" "sender_wf s"
    and "cs \<noteq> []" "last cs \<in> {Flush, Close}"
  shows "sbuf s' = []"
  using assms
proof (induction cs arbitrary: a s)
  case (Cons c cs)
  obtain r t where t: "sink_run E poll_write poll_flush poll_close a s [c] = (r, t)"
    by (cases "sink_run E poll_write poll_flush poll_close a s [c]")
  have wf: "sender_wf t"
    using sink_run_handed_over [OF t Cons.prems(2)] by blast
  have run: "sink_run E poll_write poll_flush poll_close r t cs = (Ready (Ok ()), s')"
    using t Cons.prems(1) by (cases c) (auto split: prod.splits)
  show ?case
  proof (cases "cs = []")
    case False
    then show ?thesis using Cons.IH [OF run wf] Cons.prems(4) by simp
  next
    case True
    then show ?thesis
      using Cons.prems flush_close_handed_over [OF Cons.prems(2)]
      by (fastforce split: prod.splits)
  qed
qed simp

end

section \<open>The receiver\<close>

definition receiver_wf :: "'r receiver \<Rightarrow> bool" where
  "receiver_wf s \<longleftrightarrow>
     length (rbuf s) = RECEIVE_BUF_LEN \<and> unhandled_start s \<le> unhandled_end s \<and>
     unhandled_end s \<le> RECEIVE_BUF_LEN"

text \<open>The bytes a receiver has not turned into items: those in its buffer, then those on the wire.\<close>

definition unread :: "('r \<Rightarrow> bytes) \<Rightarrow> 'r receiver \<Rightarrow> bytes" where
  "unread st s = unhandled s @ st (rreader s)"

lemma receiver_wf_new [simp]: "receiver_wf (Receiver_new r)"
  by (simp add: receiver_wf_def Receiver_new_def)

lemma Receiver_new_simps [simp]:
  "unhandled (Receiver_new r) = []" "is_done (Receiver_new r) = False" "rreader (Receiver_new r) = r"
  by (simp_all add: unhandled_def Receiver_new_def)

lemma unread_new [simp]: "unread st (Receiver_new r) = st r"
  by (simp add: unread_def)

lemma length_unhandled: "receiver_wf s \<Longrightarrow> length (unhandled s) = unhandled_end s - unhandled_start s"
  by (auto simp: receiver_wf_def unhandled_def)

lemma compact_simps [simp]:
  "rreader (compact s) = rreader s" "is_done (compact s) = is_done s"
  "unhandled_start (compact s) = 0" "unhandled_end (compact s) = length (unhandled s)"
  by (simp_all add: compact_def Let_def)

lemma unhandled_reader [simp]: "unhandled (s\<lparr>rreader := r\<rparr>) = unhandled s"
  by (simp add: unhandled_def)

lemma receiver_wf_compact: "receiver_wf s \<Longrightarrow> receiver_wf (compact s\<lparr>rreader := r\<rparr>)"
  using length_unhandled_le [of s] by (auto simp: receiver_wf_def compact_def Let_def unhandled_def)

lemma receiver_wf_fill:
  "receiver_wf s \<Longrightarrow> length got \<le> RECEIVE_BUF_LEN - unhandled_end s \<Longrightarrow> receiver_wf (fill got s)"
  by (auto simp: receiver_wf_def fill_def)

lemma fill_simps [simp]: "rreader (fill got s) = rreader s" "is_done (fill got s) = is_done s"
  by (simp_all add: fill_def)

text \<open>
  The three ways one turn of the loop may go, for a well-formed receiver: a stop byte, a whole
  line, or a read.
\<close>

lemma receive_loop_stop:
  "receiver_wf s \<Longrightarrow> unhandled s = STOP_SENTINEL # r \<Longrightarrow>
     receive_loop E rd s = (Some (Ready (Some (Ok StopDaemon))), s)"
  by (simp add: receive_loop.simps receiver_wf_def)

lemma receive_loop_line:
  assumes "memchr_ok E" "receiver_wf s"
    and "unhandled s = l @ PATH_SEPARATOR # r" "PATH_SEPARATOR \<notin> set l" "hd (unhandled s) \<noteq> STOP_SENTINEL"
  shows "receive_loop E rd s =
     (Some (Ready (Some (line_item E l))), s\<lparr>unhandled_start := unhandled_start s + (length l + 1)\<rparr>)"
proof -
  have "takeWhile (\<lambda>x. x \<noteq> PATH_SEPARATOR) (l @ PATH_SEPARATOR # r) = l"
    using assms(4) by (auto simp: takeWhile_append)
  then show ?thesis
    using assms by (simp add: receive_loop.simps [of E rd s] receiver_wf_def memchr_ok_def Let_def)
qed

lemma receive_loop_read:
  assumes "memchr_ok E" "receiver_wf s"
    and "PATH_SEPARATOR \<notin> set (unhandled s)" "unhandled s = [] \<or> hd (unhandled s) \<noteq> STOP_SENTINEL"
  shows "receive_loop E rd s =
     (case rd (RECEIVE_BUF_LEN - length (unhandled s)) (rreader s) of
        (Pending, r) \<Rightarrow> (Some Pending, compact s\<lparr>rreader := r\<rparr>)
      | (Ready (Inl err), r) \<Rightarrow> (Some (Ready (Some (Err (Io err)))), compact s\<lparr>rreader := r\<rparr>)
      | (Ready (Inr got), r) \<Rightarrow>
          if got = [] then (Some (Ready None), compact s\<lparr>rreader := r\<rparr>)
          else receive_loop E rd (fill got (compact s\<lparr>rreader := r\<rparr>)))"
  using assms
  by (auto simp: receive_loop.simps [of E rd s] receiver_wf_def memchr_ok_def Let_def
      split: prod.split poll.split sum.split)

lemma unhandled_after_line:
  assumes "receiver_wf s" "unhandled s = l @ b # r"
  shows "unhandled (s\<lparr>unhandled_start := unhandled_start s + (length l + 1)\<rparr>) = r \<and>
     receiver_wf (s\<lparr>unhandled_start := unhandled_start s + (length l + 1)\<rparr>)"
proof -
  have "length (l @ b # r) = unhandled_end s - unhandled_start s"
    using length_unhandled [OF assms(1)] assms(2) by simp
  moreover have "drop (length l + 1) (unhandled s) = r"
    by (simp add: assms(2))
  ultimately show ?thesis
    using assms(1) by (auto simp: receiver_wf_def unhandled_def drop_take add_ac)
qed

lemma unhandled_cases:
  obtains (stop) r where "unhandled s = STOP_SENTINEL # r"
  | (line) l r where "unhandled s = l @ PATH_SEPARATOR # r" "PATH_SEPARATOR \<notin> set l"
      "hd (unhandled s) \<noteq> STOP_SENTINEL"
  | (read) "PATH_SEPARATOR \<notin> set (unhandled s)" "unhandled s = [] \<or> hd (unhandled s) \<noteq> STOP_SENTINEL"
proof (cases "unhandled s \<noteq> [] \<and> hd (unhandled s) = STOP_SENTINEL")
  case True
  then show ?thesis
    by (intro stop [of "tl (unhandled s)"]) (cases "unhandled s", auto)
next
  case no_stop: False
  show ?thesis
  proof (cases "PATH_SEPARATOR \<in> set (unhandled s)")
    case True
    with no_stop show ?thesis
      by (auto dest!: split_list_first intro: line)
  next
    case False
    with no_stop show ?thesis by (auto intro: read)
  qed
qed

text \<open>
  What one poll of the loop guarantees. \<open>st\<close>, \<open>wt\<close> and \<open>lv\<close> are the reader's remaining
  bytes, its weight and its liveness: a poll never panics, a pending poll loses no byte, an end
  of stream is answered only when the specification has no further item, and an item is the
  specification's next one unless the reader failed.
\<close>

definition receive_post ::
  "('path, 'perr) wire_env \<Rightarrow> ('r \<Rightarrow> bytes) \<Rightarrow> ('r \<Rightarrow> nat) \<Rightarrow> ('r \<Rightarrow> bool) \<Rightarrow> 'r receiver \<Rightarrow>
     ('path, 'perr) item option poll option \<Rightarrow> 'r receiver \<Rightarrow> bool" where
  "receive_post E st wt lv s out s' \<longleftrightarrow>
     receiver_wf s' \<and> is_done s' = is_done s \<and> (lv (rreader s) \<longrightarrow> lv (rreader s')) \<and>
     wt (rreader s') + length (unhandled s') \<le> wt (rreader s) + length (unhandled s) \<and>
     (case out of
        None \<Rightarrow> False
      | Some Pending \<Rightarrow> unread st s' = unread st s \<and>
          (lv (rreader s) \<longrightarrow>
             wt (rreader s') + length (unhandled s') < wt (rreader s) + length (unhandled s))
      | Some (Ready None) \<Rightarrow> unread st s' = unread st s \<and> decode_step E (unread st s) = None
      | Some (Ready (Some it)) \<Rightarrow>
          decode_step E (unread st s) = Some (it, unread st s') \<and>
            (final_item it \<or>
               wt (rreader s') + length (unhandled s') < wt (rreader s) + length (unhandled s)) \<or>
          (\<exists>e. it = Err (Io e)) \<and> \<not> lv (rreader s) \<and> unread st s' = unread st s)"

lemma receive_post_trans:
  assumes "receive_post E st wt lv t out s'"
    and "unread st t = unread st s" "is_done t = is_done s" "lv (rreader s) \<Longrightarrow> lv (rreader t)"
      "wt (rreader t) + length (unhandled t) \<le> wt (rreader s) + length (unhandled s)"
  shows "receive_post E st wt lv s out s'"
  using assms unfolding receive_post_def
  by (cases out) (auto split: poll.splits option.splits)

lemma decode_step_full:
  assumes "PATH_SEPARATOR \<notin> set u" "u = [] \<or> hd u \<noteq> STOP_SENTINEL" "r = [] \<or> length u = RECEIVE_BUF_LEN"
  shows "decode_step E (u @ r) = None"
  using assms by (cases u) (auto simp: decode_step_def RECEIVE_BUF_LEN_def dest: in_set_takeD)

context async_read_live
begin

lemma receive_line_post:
  assumes E: "memchr_ok E" and wf: "receiver_wf s"
    and line: "unhandled s = l @ PATH_SEPARATOR # r" "PATH_SEPARATOR \<notin> set l"
      "hd (unhandled s) \<noteq> STOP_SENTINEL"
    and out: "receive_loop E poll_read s = (out, s')"
  shows "receive_post E stream weight live s out s'"
proof -
  let ?t = "s\<lparr>unhandled_start := unhandled_start s + (length l + 1)\<rparr>"
  have "length l < RECEIVE_BUF_LEN"
    using length_unhandled_le [of s] wf line(1) by (auto simp: receiver_wf_def)
  moreover have "hd (l @ PATH_SEPARATOR # r @ stream (rreader s)) \<noteq> STOP_SENTINEL"
    using line by (cases l) auto
  ultimately have "decode_step E (unread stream s) = Some (line_item E l, unread stream ?t)"
    using decode_step_line [OF line(2)] unhandled_after_line [OF wf line(1)] line(1)
    by (simp add: unread_def)
  then show ?thesis
    using out receive_loop_line [OF E wf line] unhandled_after_line [OF wf line(1)] line(1)
    by (auto simp: receive_post_def)
qed

text \<open>A read that delivers nothing ends the poll.\<close>

lemma receive_rest_post:
  assumes E: "memchr_ok E" and wf: "receiver_wf s"
    and rest: "PATH_SEPARATOR \<notin> set (unhandled s)" "unhandled s = [] \<or> hd (unhandled s) \<noteq> STOP_SENTINEL"
    and ar: "poll_read (RECEIVE_BUF_LEN - length (unhandled s)) (rreader s) = (a, r)"
      "\<nexists>got. a = Ready (Ok got) \<and> got \<noteq> []"
    and out: "receive_loop E poll_read s = (out, s')"
  shows "receive_post E stream weight live s out s'"
proof -
  note loop = receive_loop_read [OF E wf rest, of poll_read, unfolded ar]
  note wfc = receiver_wf_compact [OF wf, of r]
  show ?thesis
  proof (cases a rule: read_answer_cases)
    case pending
    with loop out have "out = Some Pending" "s' = compact s\<lparr>rreader := r\<rparr>" by auto
    with pending ar(1) wfc show ?thesis
      by (auto simp: receive_post_def unread_def dest: read_pending weight_pending live_kept weight_le)
  next
    case (err e)
    with loop out have "out = Some (Ready (Some (Err (Io e))))" "s' = compact s\<lparr>rreader := r\<rparr>" by auto
    with err ar(1) wfc show ?thesis
      by (auto simp: receive_post_def unread_def dest: read_err weight_le live_kept live_no_err)
  next
    case eof
    with loop out have o: "out = Some (Ready None)" "s' = compact s\<lparr>rreader := r\<rparr>" by auto
    have "length (unhandled s) \<le> RECEIVE_BUF_LEN"
      using length_unhandled_le [of s] wf by (simp add: receiver_wf_def)
    then have "stream (rreader s) = [] \<or> length (unhandled s) = RECEIVE_BUF_LEN"
      using eof ar(1) by (auto dest: read_eof)
    then have "decode_step E (unread stream s) = None"
      unfolding unread_def by (rule decode_step_full [OF rest])
    with o eof ar(1) wfc show ?thesis
      by (auto simp: receive_post_def unread_def dest: read_ok weight_le live_kept)
  qed (use ar(2) in blast)
qed

lemma receive_loop_post:
  assumes E: "memchr_ok E"
  shows "receive_loop E poll_read s = (out, s') \<Longrightarrow> receiver_wf s \<Longrightarrow>
    receive_post E stream weight live s out s'"
proof (induction "RECEIVE_BUF_LEN - length (unhandled s)" arbitrary: s rule: less_induct)
  case less
  note wf = less.prems(2)
  show ?case
  proof (cases s rule: unhandled_cases)
    case (stop r)
    then show ?thesis
      using less.prems receive_loop_stop [OF wf stop, of E poll_read]
      by (auto simp: receive_post_def unread_def decode_step_def)
  next
    case (line l r)
    then show ?thesis by (intro receive_line_post [OF E wf _ _ _ less.prems(1)])
  next
    case read
    let ?n = "RECEIVE_BUF_LEN - length (unhandled s)"
    obtain a r where ar: "poll_read ?n (rreader s) = (a, r)"
      by (cases "poll_read ?n (rreader s)")
    show ?thesis
    proof (cases "\<exists>got. a = Ready (Ok got) \<and> got \<noteq> []")
      case False
      with ar show ?thesis by (intro receive_rest_post [OF E wf read _ _ less.prems(1)])
    next
      case True
      then obtain got where got: "a = Ready (Ok got)" "got \<noteq> []" by blast
      let ?t = "fill got (compact s\<lparr>rreader := r\<rparr>)"
      have ok: "length got \<le> ?n" "stream (rreader s) = got @ stream r"
        "weight r + length got \<le> weight (rreader s)"
        using got ar by (auto dest: read_ok weight_ok)
      have "receive_loop E poll_read ?t = (out, s')"
        using got receive_loop_read [OF E wf read, of poll_read, unfolded ar] less.prems(1) by simp
      moreover have "receiver_wf ?t"
        using ok(1) by (intro receiver_wf_fill receiver_wf_compact [OF wf]) simp
      moreover have "RECEIVE_BUF_LEN - length (unhandled ?t) < ?n"
        using ok(1) got(2) by (cases got) auto
      ultimately have "receive_post E stream weight live ?t out s'"
        by (intro less.hyps)
      then show ?thesis
        by (rule receive_post_trans) (use ok ar in \<open>auto simp: unread_def dest: live_kept\<close>)
    qed
  qed
qed

text \<open>The poll itself adds the \<open>is_done\<close> flag.\<close>

lemma poll_next_cases:
  assumes "memchr_ok E" "receiver_wf s" "\<not> is_done s"
    and "poll_next E poll_read s = (out, s')"
  obtains (item) it t where "out = Some (Ready (Some it))" "s' = t\<lparr>is_done := final_item it\<rparr>"
      "receive_post E stream weight live s out t"
  | (no_item) "out = Some Pending \<or> out = Some (Ready None)" "receive_post E stream weight live s out s'"
proof -
  obtain o' t where l: "receive_loop E poll_read s = (o', t)"
    by (cases "receive_loop E poll_read s")
  have post: "receive_post E stream weight live s o' t"
    using receive_loop_post [OF assms(1) l assms(2)] .
  then obtain p where p: "o' = Some p"
    by (cases o') (auto simp: receive_post_def)
  show thesis
  proof (cases "\<exists>it. p = Ready (Some it)")
    case True
    then obtain it where it: "p = Ready (Some it)" by blast
    have "(case it of Inr StopDaemon \<Rightarrow> True | Inl e \<Rightarrow> True | _ \<Rightarrow> False) = final_item it"
      by (cases it rule: final_item.cases) (auto split: message.splits)
    with it l p assms(3,4) post show thesis
      by (intro item [of it t]) (auto simp: poll_next_def)
  next
    case False
    with l p assms(3,4) post show thesis
      by (intro no_item) (auto simp: poll_next_def split: poll.splits option.splits)
  qed
qed

end

text \<open>A client of the receiver: \<open>n\<close> polls, stopping at the end of the stream.\<close>

fun receive_all ::
  "('path, 'perr) wire_env \<Rightarrow> 'r poll_read_fn \<Rightarrow> nat \<Rightarrow> 'r receiver \<Rightarrow> ('path, 'perr) item list" where
  "receive_all E rd 0 s = []"
| "receive_all E rd (Suc n) s =
     (case poll_next E rd s of
        (Some (Ready (Some it)), s') \<Rightarrow> it # receive_all E rd n s'
      | (Some Pending, s') \<Rightarrow> receive_all E rd n s'
      | _ \<Rightarrow> [])"

lemma poll_next_done: "is_done s \<Longrightarrow> poll_next E rd s = (Some (Ready None), s)"
  by (simp add: poll_next_def)

lemma receive_all_done: "is_done s \<Longrightarrow> receive_all E rd n s = []"
  by (cases n) (simp_all add: poll_next_done)

lemma is_done_update [simp]:
  "unread st (s\<lparr>is_done := b\<rparr>) = unread st s" "receiver_wf (s\<lparr>is_done := b\<rparr>) = receiver_wf s"
  "unhandled (s\<lparr>is_done := b\<rparr>) = unhandled s"
  by (simp_all add: unread_def receiver_wf_def unhandled_def)

lemma decode_None: "decode_step E u = None \<Longrightarrow> decode E u = []"
  by (simp add: decode.simps)

lemma decode_Some:
  "decode_step E u = Some (it, r) \<Longrightarrow> decode E u = it # (if final_item it then [] else decode E r)"
  by (simp add: decode.simps)

context async_read_live
begin

lemma receive_all_decode:
  assumes E: "memchr_ok E"
  shows "receiver_wf s \<Longrightarrow> \<not> is_done s \<Longrightarrow> live (rreader s) \<Longrightarrow>
     weight (rreader s) + length (unhandled s) < n \<Longrightarrow>
     receive_all E poll_read n s = decode E (unread stream s)"
proof (induction n arbitrary: s)
  case 0
  then show ?case by simp
next
  case (Suc n)
  obtain out s' where p: "poll_next E poll_read s = (out, s')"
    by (cases "poll_next E poll_read s")
  from E Suc.prems(1,2) p show ?case
  proof (cases rule: poll_next_cases)
    case (item it t)
    with Suc.prems(3) have step: "decode_step E (unread stream s) = Some (it, unread stream t)"
      and t: "receiver_wf t" "live (rreader t)" "is_done t = is_done s"
      and w: "final_item it \<or> weight (rreader t) + length (unhandled t) < weight (rreader s) + length (unhandled s)"
      by (auto simp: receive_post_def)
    have "receive_all E poll_read n s' = (if final_item it then [] else decode E (unread stream t))"
    proof (cases "final_item it")
      case True
      with item show ?thesis by (simp add: receive_all_done)
    next
      case False
      then show ?thesis
        using Suc.IH [of s'] Suc.prems item t w by simp
    qed
    with p item show ?thesis by (simp add: decode_Some [OF step])
  next
    case no_item
    then show ?thesis
      using Suc p by (auto simp: receive_post_def decode_None)
  qed
qed

lemma receive_all_oversized:
  assumes "memchr_ok E" "receiver_wf s" "\<not> is_done s" "live (rreader s)" "decode_step E (unread stream s) = None"
  shows "receive_all E poll_read n s = []"
  using assms(2-)
proof (induction n arbitrary: s)
  case (Suc n)
  obtain out s' where p: "poll_next E poll_read s = (out, s')"
    by (cases "poll_next E poll_read s")
  from assms(1) Suc.prems(1,2) p show ?case
    by (cases rule: poll_next_cases) (use Suc p in \<open>auto simp: receive_post_def\<close>)
qed simp

end

section \<open>A reader that fails\<close>

text \<open>
  The items of the bytes \<open>u\<close> that a peer delivered before its connection failed with \<open>e\<close>: the
  specification's items and then the failure, unless the stream ended before it: with a final
  item, or with a line that does not fit the buffer.
\<close>

function decode_until_failure ::
  "('path, 'perr) wire_env \<Rightarrow> io_error \<Rightarrow> bytes \<Rightarrow> ('path, 'perr) item list" where
  "decode_until_failure E e u =
     (case decode_step E u of
        None \<Rightarrow> if RECEIVE_BUF_LEN < length u then [] else [Err (Io e)]
      | Some (it, r) \<Rightarrow> it # (if final_item it then [] else decode_until_failure E e r))"
  by pat_completeness auto
termination
  by (relation "measure (\<lambda>(E, e, u). length u)") (auto dest: decode_step_shorter)

declare decode_until_failure.simps [simp del]

lemma decode_until_failure_Some:
  "decode_step E u = Some (it, r) \<Longrightarrow>
     decode_until_failure E e u = it # (if final_item it then [] else decode_until_failure E e r)"
  by (simp add: decode_until_failure.simps)

lemma decode_until_failure_None:
  "decode_step E u = None \<Longrightarrow>
     decode_until_failure E e u = (if RECEIVE_BUF_LEN < length u then [] else [Err (Io e)])"
  by (simp add: decode_until_failure.simps)

definition failing_post ::
  "('path, 'perr) wire_env \<Rightarrow> ('r \<Rightarrow> nat) \<Rightarrow> (bytes \<Rightarrow> 'r \<Rightarrow> bool) \<Rightarrow> io_error \<Rightarrow> bytes \<Rightarrow> 'r receiver \<Rightarrow>
     ('path, 'perr) item option poll option \<Rightarrow> 'r receiver \<Rightarrow> bool" where
  "failing_post E wt fl e b s out s' \<longleftrightarrow>
     receiver_wf s' \<and> is_done s' = is_done s \<and>
     (case out of
        None \<Rightarrow> False
      | Some Pending \<Rightarrow> (\<exists>b'. fl b' (rreader s') \<and> unhandled s' @ b' = unhandled s @ b) \<and>
          wt (rreader s') + length (unhandled s') < wt (rreader s) + length (unhandled s)
      | Some (Ready None) \<Rightarrow> decode_step E (unhandled s @ b) = None \<and> RECEIVE_BUF_LEN < length (unhandled s @ b)
      | Some (Ready (Some it)) \<Rightarrow>
          (\<exists>b'. fl b' (rreader s') \<and> decode_step E (unhandled s @ b) = Some (it, unhandled s' @ b') \<and>
             (final_item it \<or> wt (rreader s') + length (unhandled s') < wt (rreader s) + length (unhandled s))) \<or>
          it = Err (Io e) \<and> decode_step E (unhandled s @ b) = None \<and> length (unhandled s @ b) \<le> RECEIVE_BUF_LEN)"

context async_read_failing
begin

lemma failing_line_post:
  assumes E: "memchr_ok E" and wf: "receiver_wf s"
    and line: "unhandled s = l @ PATH_SEPARATOR # r" "PATH_SEPARATOR \<notin> set l"
      "hd (unhandled s) \<noteq> STOP_SENTINEL"
    and out: "receive_loop E poll_read s = (out, s')" and b: "fails e b (rreader s)"
  shows "failing_post E weight (fails e) e b s out s'"
proof -
  let ?t = "s\<lparr>unhandled_start := unhandled_start s + (length l + 1)\<rparr>"
  have "length l < RECEIVE_BUF_LEN"
    using length_unhandled_le [of s] wf line(1) by (auto simp: receiver_wf_def)
  moreover have "hd (l @ PATH_SEPARATOR # r @ b) \<noteq> STOP_SENTINEL"
    using line by (cases l) auto
  ultimately have "decode_step E (unhandled s @ b) = Some (line_item E l, unhandled ?t @ b)"
    using decode_step_line [OF line(2)] unhandled_after_line [OF wf line(1)] line(1) by simp
  then show ?thesis
    using out receive_loop_line [OF E wf line] unhandled_after_line [OF wf line(1)] line(1) b
    by (auto simp: failing_post_def)
qed

lemma failing_rest_post:
  assumes E: "memchr_ok E" and wf: "receiver_wf s"
    and rest: "PATH_SEPARATOR \<notin> set (unhandled s)" "unhandled s = [] \<or> hd (unhandled s) \<noteq> STOP_SENTINEL"
    and ar: "poll_read (RECEIVE_BUF_LEN - length (unhandled s)) (rreader s) = (a, r)"
      "\<nexists>got. a = Ready (Ok got) \<and> got \<noteq> []"
    and out: "receive_loop E poll_read s = (out, s')" and b: "fails e b (rreader s)"
  shows "failing_post E weight (fails e) e b s out s'"
proof -
  note loop = receive_loop_read [OF E wf rest, of poll_read, unfolded ar]
  note wfc = receiver_wf_compact [OF wf, of r]
  have len: "length (unhandled s) \<le> RECEIVE_BUF_LEN"
    using length_unhandled_le [of s] wf by (simp add: receiver_wf_def)
  show ?thesis
  proof (cases a rule: read_answer_cases)
    case pending
    with loop out have "out = Some Pending" "s' = compact s\<lparr>rreader := r\<rparr>" by auto
    with fails_pending [OF b ar(1) [unfolded pending]] wfc show ?thesis
      by (auto simp: failing_post_def)
  next
    case (err e')
    with loop out have "out = Some (Ready (Some (Err (Io e'))))" "s' = compact s\<lparr>rreader := r\<rparr>" by auto
    with fails_err [OF b ar(1) [unfolded err]] decode_step_full [OF rest, of "[]" E] len wfc show ?thesis
      by (auto simp: failing_post_def)
  next
    case eof
    with loop out have "out = Some (Ready None)" "s' = compact s\<lparr>rreader := r\<rparr>" by auto
    with fails_nothing [OF b ar(1) [unfolded eof]] decode_step_full [OF rest, of b E] len wfc show ?thesis
      by (auto simp: failing_post_def)
  qed (use ar(2) in blast)
qed

lemma failing_post_trans:
  assumes "failing_post E weight (fails e) e b' t out s'"
    and "unhandled t @ b' = unhandled s @ b" "is_done t = is_done s"
      "weight (rreader t) + length (unhandled t) \<le> weight (rreader s) + length (unhandled s)"
  shows "failing_post E weight (fails e) e b s out s'"
  using assms unfolding failing_post_def by (cases out) (auto split: poll.splits option.splits)

lemma failing_loop_post:
  assumes E: "memchr_ok E"
  shows "receive_loop E poll_read s = (out, s') \<Longrightarrow> receiver_wf s \<Longrightarrow> fails e b (rreader s) \<Longrightarrow>
    failing_post E weight (fails e) e b s out s'"
proof (induction "RECEIVE_BUF_LEN - length (unhandled s)" arbitrary: s b rule: less_induct)
  case less
  note wf = less.prems(2)
  show ?case
  proof (cases s rule: unhandled_cases)
    case (stop r)
    then show ?thesis
      using less.prems receive_loop_stop [OF wf stop, of E poll_read]
      by (auto simp: failing_post_def decode_step_def)
  next
    case (line l r)
    then show ?thesis by (intro failing_line_post [OF E wf _ _ _ less.prems(1, 3)])
  next
    case read
    let ?n = "RECEIVE_BUF_LEN - length (unhandled s)"
    obtain a r where ar: "poll_read ?n (rreader s) = (a, r)"
      by (cases "poll_read ?n (rreader s)")
    show ?thesis
    proof (cases "\<exists>got. a = Ready (Ok got) \<and> got \<noteq> []")
      case False
      with ar show ?thesis by (intro failing_rest_post [OF E wf read _ _ less.prems(1, 3)])
    next
      case True
      then obtain got where got: "a = Ready (Ok got)" "got \<noteq> []" by blast
      let ?t = "fill got (compact s\<lparr>rreader := r\<rparr>)"
      obtain b' where b': "b = got @ b'" "fails e b' r"
        using fails_ok [OF less.prems(3) ar [unfolded got(1)]] by blast
      have ok: "length got \<le> ?n" "weight r + length got \<le> weight (rreader s)"
        using got ar by (auto dest: read_ok weight_ok)
      have "receive_loop E poll_read ?t = (out, s')"
        using got receive_loop_read [OF E wf read, of poll_read, unfolded ar] less.prems(1) by simp
      moreover have "receiver_wf ?t"
        using ok(1) by (intro receiver_wf_fill receiver_wf_compact [OF wf]) simp
      moreover have "RECEIVE_BUF_LEN - length (unhandled ?t) < ?n"
        using ok(1) got(2) by (cases got) auto
      ultimately have "failing_post E weight (fails e) e b' ?t out s'"
        using b'(2) by (intro less.hyps) simp_all
      then show ?thesis
        by (rule failing_post_trans) (use ok b'(1) in auto)
    qed
  qed
qed

lemma receive_all_failing:
  assumes E: "memchr_ok E"
  shows "receiver_wf s \<Longrightarrow> \<not> is_done s \<Longrightarrow> fails e b (rreader s) \<Longrightarrow>
     weight (rreader s) + length (unhandled s) < n \<Longrightarrow>
     receive_all E poll_read n s = decode_until_failure E e (unhandled s @ b)"
proof (induction n arbitrary: s b)
  case (Suc n)
  obtain out t where l: "receive_loop E poll_read s = (out, t)"
    by (cases "receive_loop E poll_read s")
  note post = failing_loop_post [OF E l Suc.prems(1, 3), unfolded failing_post_def]
  have "out \<noteq> None"
    using post by (cases out) auto
  then consider "out = Some Pending" | "out = Some (Ready None)" | it where "out = Some (Ready (Some it))"
    by (metis not_None_eq poll.exhaust)
  then show ?case
  proof cases
    case 1
    with l Suc.prems(2) have p: "poll_next E poll_read s = (Some Pending, t)"
      by (simp add: poll_next_def)
    from post 1 obtain b' where "fails e b' (rreader t)" "unhandled t @ b' = unhandled s @ b" by auto
    with p post 1 Suc.prems Suc.IH [of t b'] show ?thesis by simp
  next
    case 2
    with l Suc.prems(2) have "poll_next E poll_read s = (Some (Ready None), t)"
      by (simp add: poll_next_def)
    with post 2 show ?thesis by (simp add: decode_until_failure_None)
  next
    case (3 it)
    have "(case it of Inr StopDaemon \<Rightarrow> True | Inl e \<Rightarrow> True | _ \<Rightarrow> False) = final_item it"
      by (cases it rule: final_item.cases) (auto split: message.splits)
    with 3 l Suc.prems(2) have p: "poll_next E poll_read s = (Some (Ready (Some it)), t\<lparr>is_done := final_item it\<rparr>)"
      by (simp add: poll_next_def)
    show ?thesis
    proof (cases "decode_step E (unhandled s @ b)")
      case None
      with post 3 p show ?thesis
        by (auto simp: decode_until_failure_None receive_all_done)
    next
      case (Some x)
      with post 3 obtain b' where b': "fails e b' (rreader t)"
        "decode_step E (unhandled s @ b) = Some (it, unhandled t @ b')"
        "final_item it \<or> weight (rreader t) + length (unhandled t) < weight (rreader s) + length (unhandled s)"
        by auto
      show ?thesis
      proof (cases "final_item it")
        case True
        with p show ?thesis by (simp add: decode_until_failure_Some [OF b'(2)] receive_all_done)
      next
        case False
        with p post 3 b' Suc.prems Suc.IH [of "t\<lparr>is_done := False\<rparr>" b'] show ?thesis
          by (simp add: decode_until_failure_Some [OF b'(2)])
      qed
    qed
  qed
qed simp

end

section \<open>Store directories\<close>

text \<open>The invariant the type promises: an \<open>Other\<close> directory holds no NUL byte.\<close>

fun store_dir_wf :: "string \<Rightarrow> store_dir \<Rightarrow> bool" where
  "store_dir_wf lit NixStore = True"
| "store_dir_wf lit (Other s) = (s \<noteq> lit \<and> 0 \<notin> set (as_bytes s))"

section \<open>A concrete environment\<close>

text \<open>
  Store paths as plain strings under \<open>/nix/store/\<close>: the parameters of the model instantiated
  by concrete functions, for the closed instances of the properties.
\<close>

definition sample_env :: "(string, unit) wire_env" where
  "sample_env = \<lparr>display_path = (\<lambda>s. s),
     parse_path = (\<lambda>s. if take 11 s = ''/nix/store/'' then Ok s else Err ()),
     memchr = (\<lambda>b bs. if b \<in> set bs then Some (length (takeWhile (\<lambda>x. x \<noteq> b) bs)) else None)\<rparr>"

lemma memchr_ok_sample: "memchr_ok sample_env"
  by (simp add: memchr_ok_def sample_env_def)

lemma path_ok_sample: "path_ok sample_env ''/nix/store/a''"
  by code_simp

definition sample_reader :: script_reader where
  "sample_reader = \<lparr>r_script = [Chunk (as_bytes ''/nix/st''), RStall, Chunk (as_bytes ''ore/a'' @ [10, 0])],
     r_closed = True\<rparr>"

section \<open>Properties\<close>

text \<open>
  C30: The sender neither loses, duplicates nor reorders a byte: after any sequence of sends,
  flushes and closes, against any scripted writer, what the writer accepted followed by what is
  still buffered is the encoding of the messages sent, in order.
\<close>

theorem sender_conserves_bytes:
  "(let (a, s) = sink_run E sw_poll_write sw_poll_flush sw_poll_close a0 (Sender_new (fresh_writer ws ys)) cs
    in w_accepted (swriter s) @ drop (num_written s) (sbuf s) = encode E (sent_messages cs))"
  using sw.sink_run_handed_over [of E a0 "Sender_new (fresh_writer ws ys)" cs]
  by (auto simp: handed_over_def [symmetric] fresh_writer_def split: prod.split)

text \<open>
  A flush or a close that answers success has handed the whole encoding of every message
  sent so far to the writer.
\<close>

theorem sender_flush_complete:
  assumes "sink_run E sw_poll_write sw_poll_flush sw_poll_close a0 (Sender_new (fresh_writer ws ys)) cs =
      (Ready (Ok ()), s)"
    and "cs \<noteq> []" "last cs \<in> {Flush, Close}"
  shows "w_accepted (swriter s) = encode E (sent_messages cs)"
  using sw.sink_run_handed_over [OF assms(1) sender_wf_new]
    sw.sink_run_flushed [OF assms(1) sender_wf_new assms(2,3)]
  by (simp add: handed_over_def fresh_writer_def Sender_new_def)

theorem sender_flush_complete_witness:
  "w_accepted (swriter (snd (sink_run sample_env sw_poll_write sw_poll_flush sw_poll_close Pending
      (Sender_new (fresh_writer [Accept 3, WStall, Accept 4] []))
      [Send (PushStorePath ''/nix/store/a''), Flush, Send StopDaemon, Close]))) =
   as_bytes ''/nix/store/a'' @ [10, 0]"
proof -
  let ?run = "sink_run sample_env sw_poll_write sw_poll_flush sw_poll_close Pending
      (Sender_new (fresh_writer [Accept 3, WStall, Accept 4] []))
      [Send (PushStorePath ''/nix/store/a''), Flush, Send StopDaemon, Close]"
  have "fst ?run = Ready (Ok ())"
    by code_simp
  then have "?run = (Ready (Ok ()), snd ?run)"
    by (metis prod.collapse)
  from sender_flush_complete [OF this] show ?thesis
    by (simp add: sample_env_def PATH_SEPARATOR_def STOP_SENTINEL_def)
qed

text \<open>
  C12: The receiver implements the specification: reading from a peer that closes without a
  failure, enough polls yield exactly the items \<open>decode\<close> finds in the bytes on the wire,
  however they are split into chunks and however often the reader is pending.
\<close>

theorem receiver_refines_decode:
  assumes "memchr_ok E" "sr_live r" "sr_weight r < n"
  shows "receive_all E sr_poll_read n (Receiver_new r) = decode E (sr_stream r)"
  using sr.receive_all_decode [OF assms(1), of "Receiver_new r" n] assms(2,3) by simp

theorem receiver_refines_decode_witness:
  "receive_all sample_env sr_poll_read 30 (Receiver_new sample_reader) =
     [Ok (PushStorePath ''/nix/store/a''), Ok StopDaemon]"
proof -
  have "sr_live sample_reader" "sr_weight sample_reader < 30"
    by (simp_all add: sample_reader_def sr_live_def sr_weight_def)
  moreover have "decode sample_env (sr_stream sample_reader) = [Ok (PushStorePath ''/nix/store/a''), Ok StopDaemon]"
    by code_simp
  ultimately show ?thesis
    using receiver_refines_decode [OF memchr_ok_sample] by metis
qed

text \<open>
  C31: A failing connection is reported, once and last: if reading delivers some bytes and then
  an error, enough polls yield exactly the items of these bytes and then this error, however the
  bytes are split and however often the reader is pending. The error is not seen only if the
  stream ended before it, with a stop, with an error in the bytes themselves, or with a line
  that does not fit the buffer.
\<close>

theorem receiver_reports_failure:
  assumes "memchr_ok E" "r_script r = before @ RFail e # after" "no_fail before" "sr_weight r < n"
  shows "receive_all E sr_poll_read n (Receiver_new r) = decode_until_failure E e (events_bytes before)"
proof -
  have "sr_fails e (events_bytes before) r"
    using assms(2, 3) by (auto simp: sr_fails_def)
  then show ?thesis
    using srf.receive_all_failing [OF assms(1), of "Receiver_new r" e "events_bytes before" n] assms(4) by simp
qed

definition failing_reader :: script_reader where
  "failing_reader = \<lparr>r_script = [Chunk (as_bytes ''/nix/store/a'' @ [PATH_SEPARATOR]), RStall, Chunk (as_bytes ''/nix/st''),
     RFail (IoError OtherKind ''reset''), Chunk [STOP_SENTINEL]], r_closed = True\<rparr>"

theorem receiver_reports_failure_witness:
  "receive_all sample_env sr_poll_read 40 (Receiver_new failing_reader) =
     [Ok (PushStorePath ''/nix/store/a''), Err (Io (IoError OtherKind ''reset''))]"
proof -
  let ?pre = "[Chunk (as_bytes ''/nix/store/a'' @ [PATH_SEPARATOR]), RStall, Chunk (as_bytes ''/nix/st'')]"
  have script: "r_script failing_reader = ?pre @ RFail (IoError OtherKind ''reset'') # [Chunk [STOP_SENTINEL]]"
    "no_fail ?pre" "sr_weight failing_reader < 40"
    by (simp_all add: failing_reader_def sr_weight_def as_bytes_def)
  have "decode_until_failure sample_env (IoError OtherKind ''reset'') (events_bytes ?pre) =
      [Ok (PushStorePath ''/nix/store/a''), Err (Io (IoError OtherKind ''reset''))]"
    by code_simp
  with receiver_reports_failure [OF memchr_ok_sample script] show ?thesis by simp
qed

text \<open>
  C32: Indexing the receive buffer never panics, and the unhandled range stays inside the
  buffer, whatever the reader does.
\<close>

theorem poll_next_no_panic:
  assumes "memchr_ok E" "receiver_wf s"
  shows "fst (poll_next E sr_poll_read s) \<noteq> None \<and> receiver_wf (snd (poll_next E sr_poll_read s))"
proof (cases "is_done s")
  case True
  with assms(2) show ?thesis by (simp add: poll_next_done)
next
  case False
  obtain out s' where p: "poll_next E sr_poll_read s = (out, s')"
    by (cases "poll_next E sr_poll_read s")
  from assms False p show ?thesis
    by (cases rule: sr.poll_next_cases) (auto simp: p receive_post_def)
qed

theorem poll_next_no_panic_witness:
  "fst (poll_next sample_env sr_poll_read (Receiver_new sample_reader)) \<noteq> None"
  using poll_next_no_panic [OF memchr_ok_sample receiver_wf_new] by blast

text \<open>
  Round trip of the wire format: the messages of a sender, decoded, are those messages up
  to and including the first stop.
\<close>

theorem decode_encode:
  assumes "list_all (message_ok E) ms"
  shows "decode E (encode E ms) = map Ok (upto_stop ms)"
  using assms by (rule decode_encode_messages)

theorem decode_encode_witness:
  "decode sample_env (encode sample_env [PushStorePath ''/nix/store/a'', StopDaemon, StopDaemon]) =
     [Ok (PushStorePath ''/nix/store/a''), Ok StopDaemon]"
  using decode_encode [of sample_env "[PushStorePath ''/nix/store/a'', StopDaemon, StopDaemon]"]
  by (simp add: path_ok_sample)

text \<open>
  C36: A line that does not fit the receiver's 1024-byte buffer ends the stream silently: no
  message and no error is yielded for it or for anything after it, because the read into the
  full buffer returns no byte and is taken for the end of the stream.
\<close>

theorem oversized_line_ends_stream:
  assumes "memchr_ok E" "sr_live r"
    and "RECEIVE_BUF_LEN \<le> length l" "PATH_SEPARATOR \<notin> set l" "hd l \<noteq> STOP_SENTINEL"
    and "sr_stream r = l @ PATH_SEPARATOR # rest"
  shows "receive_all E sr_poll_read n (Receiver_new r) = []"
proof -
  have "decode_step E (take RECEIVE_BUF_LEN l @ (drop RECEIVE_BUF_LEN l @ PATH_SEPARATOR # rest)) = None"
    using assms(3-5) by (intro decode_step_full) (auto simp: RECEIVE_BUF_LEN_def dest: in_set_takeD)
  then have "decode_step E (sr_stream r) = None"
    by (metis append.assoc append_take_drop_id assms(6))
  then show ?thesis
    using sr.receive_all_oversized [OF assms(1), of "Receiver_new r" n] assms(2) by simp
qed

theorem oversized_line_ends_stream_witness:
  "receive_all sample_env sr_poll_read 5000 (Receiver_new
     \<lparr>r_script = [Chunk (replicate 1024 65 @ [PATH_SEPARATOR, STOP_SENTINEL])], r_closed = True\<rparr>) = []"
  by (rule oversized_line_ends_stream [OF memchr_ok_sample,
        where l = "replicate 1024 65" and rest = "[STOP_SENTINEL]"])
    (simp_all add: sr_live_def sr_stream_def RECEIVE_BUF_LEN_def PATH_SEPARATOR_def STOP_SENTINEL_def)

text \<open>
  C38: Parsing a store directory inverts printing it exactly for the well-formed ones (the
  built-in directory, and any other spelling that holds no NUL byte), and everything the parser
  accepts is well-formed and prints back to the text it was parsed from.
\<close>

theorem store_dir_roundtrip:
  assumes "memchr_ok E"
  shows "(store_dir_from_str E lit (store_dir_fmt lit d) = Ok d \<longleftrightarrow> store_dir_wf lit d) \<and>
     (store_dir_from_str E lit s = Ok d \<longrightarrow> store_dir_wf lit d \<and> store_dir_fmt lit d = s)"
  using assms by (cases d) (auto simp: store_dir_from_str_def memchr_ok_def)

theorem store_dir_roundtrip_witness:
  "store_dir_from_str sample_env ''/nix/store'' (store_dir_fmt ''/nix/store'' (Other ''/gnu'')) = Ok (Other ''/gnu'')"
  using store_dir_roundtrip [OF memchr_ok_sample, of "''/nix/store''" "Other ''/gnu''" "''/gnu''"] by simp

end
