(* ===== verification/Event_Loop_Correct.thy ===== *)
theory Event_Loop_Correct
  imports Event_Loop Protocol_Correct "HOL-Library.Multiset"
begin

text \<open>
  Correctness of the event loop over all interleavings: the bound on concurrent work, that no
  path waits while there is room, that every store path of every computed closure is handled
  exactly once (up to its hash), that the report counts exactly what happened, that every push
  received before the loop stops is served, and that draining terminates. The loop is also shown
  to implement an abstract work pool.
\<close>

section \<open>The bounded pool\<close>

definition pool_inv :: "('path, 'hash, 'perr, 'cerr, 'herr, 'r, 'wr) loop_state \<Rightarrow> bool" where
  "pool_inv s \<longleftrightarrow>
     length (handle_store_paths s) \<le> MAX_CONCURRENT_STORE_PATHS \<and>
     (pending_handle_store_paths s \<noteq> [] \<longrightarrow>
        length (handle_store_paths s) = MAX_CONCURRENT_STORE_PATHS)"

lemma pool_inv_admit: "pool_inv s \<Longrightarrow> pool_inv (admit_path hash p s)"
  by (auto simp: pool_inv_def admit_path_def Let_def)

lemma pool_inv_admit_fold: "pool_inv s \<Longrightarrow> pool_inv (fold (admit_path hash) ps s)"
  by (induction ps arbitrary: s) (simp_all add: pool_inv_admit)

lemma pool_inv_updates [simp]:
  "pool_inv (s\<lparr>store_closures := cs\<rparr>) = pool_inv s"
  "pool_inv (s\<lparr>report := r\<rparr>) = pool_inv s"
  by (simp_all add: pool_inv_def)

lemma io_turn_frame [simp]:
  "handle_store_paths (io_turn E rd i s) = handle_store_paths s"
  "pending_handle_store_paths (io_turn E rd i s) = pending_handle_store_paths s"
  "seen_store_hashes (io_turn E rd i s) = seen_store_hashes s"
  "store_closures (io_turn E rd i s) = store_closures s"
  "report (io_turn E rd i s) = report s"
  "stop_progress_writer (io_turn E rd i s) = stop_progress_writer s"
  "rx_errors (io_turn E rd i s) = rx_errors s"
  "phase (io_turn E rd i s) = phase s"
  "reporter (io_turn E rd i s) = reporter s"
  by (simp_all add: io_turn_def case_prod_beta Let_def)

lemma on_message_frame [simp]:
  "handle_store_paths (on_message m s) = handle_store_paths s"
  "pending_handle_store_paths (on_message m s) = pending_handle_store_paths s"
  "seen_store_hashes (on_message m s) = seen_store_hashes s"
  "report (on_message m s) = report s"
  "phase (on_message m s) = phase s"
  "reporter (on_message m s) = reporter s"
  "io_tasks (on_message m s) = io_tasks s"
  "messages (on_message m s) = messages s"
  by (cases "(m, s)" rule: on_message.cases; simp)+

lemma admit_path_frame [simp]:
  "store_closures (admit_path hash p s) = store_closures s"
  "report (admit_path hash p s) = report s"
  "stop_progress_writer (admit_path hash p s) = stop_progress_writer s"
  "rx_errors (admit_path hash p s) = rx_errors s"
  "phase (admit_path hash p s) = phase s"
  "reporter (admit_path hash p s) = reporter s"
  "io_tasks (admit_path hash p s) = io_tasks s"
  "messages (admit_path hash p s) = messages s"
  by (simp_all add: admit_path_def Let_def)

lemma admit_fold_frame [simp]:
  "store_closures (fold (admit_path hash) ps s) = store_closures s"
  "report (fold (admit_path hash) ps s) = report s"
  "stop_progress_writer (fold (admit_path hash) ps s) = stop_progress_writer s"
  "rx_errors (fold (admit_path hash) ps s) = rx_errors s"
  "phase (fold (admit_path hash) ps s) = phase s"
  "reporter (fold (admit_path hash) ps s) = reporter s"
  "io_tasks (fold (admit_path hash) ps s) = io_tasks s"
  "messages (fold (admit_path hash) ps s) = messages s"
  by (induction ps arbitrary: s) simp_all

lemma start_pending_frame [simp]:
  "store_closures (start_pending s) = store_closures s"
  "report (start_pending s) = report s"
  "stop_progress_writer (start_pending s) = stop_progress_writer s"
  "rx_errors (start_pending s) = rx_errors s"
  "phase (start_pending s) = phase s"
  "reporter (start_pending s) = reporter s"
  "seen_store_hashes (start_pending s) = seen_store_hashes s"
  "io_tasks (start_pending s) = io_tasks s"
  "messages (start_pending s) = messages s"
  by (simp_all add: start_pending_def split: list.split)

lemma pool_inv_complete:
  assumes "pool_inv s" "p \<in> set (handle_store_paths s)"
    and "handle_store_paths t = remove1 p (handle_store_paths s)"
    and "pending_handle_store_paths t = pending_handle_store_paths s"
  shows "pool_inv (start_pending t)"
proof -
  have "0 < length (handle_store_paths s)"
    using assms(2) by (cases "handle_store_paths s") auto
  then show ?thesis
    using assms
    by (auto simp: pool_inv_def start_pending_def length_remove1 MAX_CONCURRENT_STORE_PATHS_def
        split: list.split)
qed

lemma pool_inv_step: "pool_inv s \<Longrightarrow> loop_step E rd hash l s = Some t \<Longrightarrow> pool_inv t"
proof (cases l)
  case (ClosureDone p res)
  assume "pool_inv s" "loop_step E rd hash l s = Some t"
  with ClosureDone show ?thesis
    by (cases res) (auto split: if_splits intro: pool_inv_admit_fold)
next
  case (PathHandled p res)
  assume "pool_inv s" "loop_step E rd hash l s = Some t"
  then show ?thesis
    using PathHandled
    by (auto simp: on_handled_def on_drained_def intro!: pool_inv_complete
        split: if_splits phase.splits)
qed (auto simp: pool_inv_def on_io_def on_break_def on_finish_def split: if_splits list.splits)

interpretation pool: step_invariant "loop_step E rd hash" pool_inv for E rd hash
  by unfold_locales (rule pool_inv_step)

section \<open>What a run did\<close>

text \<open>The paths handled, the closures computed and the messages received in a run, in order.\<close>

fun handled :: "('path, 'perr, 'cerr, 'herr, 'r, 'wr) label list \<Rightarrow> ('path \<times> 'herr handle_result) list" where
  "handled [] = []"
| "handled (PathHandled p r # ls) = (p, r) # handled ls"
| "handled (l # ls) = handled ls"

fun closures :: "('path, 'perr, 'cerr, 'herr, 'r, 'wr) label list \<Rightarrow> ('path \<times> ('cerr + 'path list)) list" where
  "closures [] = []"
| "closures (ClosureDone p r # ls) = (p, r) # closures ls"
| "closures (l # ls) = closures ls"

fun received :: "('path, 'perr, 'cerr, 'herr, 'r, 'wr) label list \<Rightarrow> ('path, 'perr, 'wr) channel_message list" where
  "received [] = []"
| "received (Received m # ls) = m # received ls"
| "received (l # ls) = received ls"

lemma handled_append [simp]: "handled (ls @ ms) = handled ls @ handled ms"
  by (induction ls rule: handled.induct) simp_all

lemma closures_append [simp]: "closures (ls @ ms) = closures ls @ closures ms"
  by (induction ls rule: closures.induct) simp_all

lemma received_append [simp]: "received (ls @ ms) = received ls @ received ms"
  by (induction ls rule: received.induct) simp_all

text \<open>The store paths of the closures that could be computed, and the store paths pushed.\<close>

definition closure_paths :: "('path \<times> ('cerr + 'path list)) list \<Rightarrow> 'path set" where
  "closure_paths cs = (\<Union>(p, res) \<in> set cs. case res of Inr ps \<Rightarrow> set ps | Inl e \<Rightarrow> {})"

fun pushes :: "('path, 'perr, 'wr) channel_message list \<Rightarrow> 'path list" where
  "pushes [] = []"
| "pushes (Inr (EventPushStorePath p) # ms) = p # pushes ms"
| "pushes (m # ms) = pushes ms"

fun stops :: "('path, 'perr, 'wr) channel_message list \<Rightarrow> 'wr list" where
  "stops [] = []"
| "stops (Inr (EventStop w) # ms) = w # stops ms"
| "stops (m # ms) = stops ms"

fun errors :: "('path, 'perr, 'wr) channel_message list \<Rightarrow> 'perr receive_error list" where
  "errors [] = []"
| "errors (Inl e # ms) = e # errors ms"
| "errors (m # ms) = errors ms"

lemma message_lists_append [simp]:
  "pushes (ms @ ms') = pushes ms @ pushes ms'"
  "stops (ms @ ms') = stops ms @ stops ms'"
  "errors (ms @ ms') = errors ms @ errors ms'"
  by (induction ms rule: pushes.induct) simp_all

lemma closure_paths_simps [simp]:
  "closure_paths [] = {}"
  "closure_paths (cs @ [(p, Inr ps)]) = closure_paths cs \<union> set ps"
  "closure_paths (cs @ [(p, Inl e)]) = closure_paths cs"
  by (auto simp: closure_paths_def)

text \<open>The labels that neither complete a closure nor a path leave the work alone.\<close>

fun quiet :: "('path, 'perr, 'cerr, 'herr, 'r, 'wr) label \<Rightarrow> bool" where
  "quiet (ClosureDone p res) = False"
| "quiet (PathHandled p res) = False"
| "quiet l = True"

lemma quiet_step:
  assumes "quiet l" "loop_step E rd hash l u = Some v"
  shows "handle_store_paths v = handle_store_paths u"
    "pending_handle_store_paths v = pending_handle_store_paths u"
    "seen_store_hashes v = seen_store_hashes u" "report v = report u"
    "handled [l] = []" "closures [l] = []"
  using assms
  by (cases l; auto simp: on_io_def on_break_def on_finish_def split: if_splits list.splits)+

text \<open>A completed path leaves the pool, is recorded, and a waiting path takes its place.\<close>

lemma path_step:
  assumes "loop_step E rd hash (PathHandled p res) u = Some v"
  obtains t where "v = start_pending t" "p \<in> set (handle_store_paths u)"
    "handle_store_paths t = remove1 p (handle_store_paths u)"
    "pending_handle_store_paths t = pending_handle_store_paths u"
    "seen_store_hashes t = seen_store_hashes u" "report t = record_result p res (report u)"
    "store_closures t = store_closures u" "stop_progress_writer t = stop_progress_writer u"
    "rx_errors t = rx_errors u" "phase t = phase u"
  using assms by (auto simp: on_handled_def on_drained_def split: if_splits phase.splits)

lemma closure_step:
  assumes "loop_step E rd hash (ClosureDone p res) u = Some v"
  shows "p \<in> set (store_closures u) \<and> phase u = Looping \<and>
    v = on_closure hash p res (u\<lparr>store_closures := remove1 p (store_closures u)\<rparr>)"
  using assms by (auto split: if_splits)

lemma label_cases:
  obtains (closure) p res where "l = ClosureDone p res"
  | (path) p res where "l = PathHandled p res"
  | (quiet) "quiet l"
  by (cases l) auto

section \<open>Every hash at most once\<close>

text \<open>
  \<open>done\<close> are the paths handled so far: they, the paths in flight and the waiting ones have
  pairwise different hashes, which are the hashes seen.
\<close>

definition hashes_inv :: "('path \<Rightarrow> 'hash) \<Rightarrow> 'path list \<Rightarrow>
    ('path, 'hash, 'perr, 'cerr, 'herr, 'r, 'wr) loop_state \<Rightarrow> bool" where
  "hashes_inv hash done s \<longleftrightarrow>
     (let work = done @ handle_store_paths s @ pending_handle_store_paths s in
        distinct (map hash work) \<and> hash ` set work = seen_store_hashes s)"

lemma hashes_inv_init [simp]: "hashes_inv hash [] loop_init"
  by (simp add: hashes_inv_def loop_init_def)

lemma hashes_inv_admit:
  "hashes_inv hash done s \<Longrightarrow> hashes_inv hash done (admit_path hash p s) \<and>
     seen_store_hashes (admit_path hash p s) = insert (hash p) (seen_store_hashes s)"
  by (auto simp: hashes_inv_def admit_path_def Let_def)

lemma hashes_inv_admit_fold:
  "hashes_inv hash done s \<Longrightarrow> hashes_inv hash done (fold (admit_path hash) ps s) \<and>
     seen_store_hashes (fold (admit_path hash) ps s) = seen_store_hashes s \<union> hash ` set ps"
proof (induction ps arbitrary: s)
  case (Cons p ps)
  show ?case
    using Cons.IH [of "admit_path hash p s"] hashes_inv_admit [OF Cons.prems, of p] by auto
qed simp

lemma hashes_inv_complete:
  assumes "hashes_inv hash done s" "p \<in> set (handle_store_paths s)"
    and "handle_store_paths t = remove1 p (handle_store_paths s)"
    and "pending_handle_store_paths t = pending_handle_store_paths s"
    and "seen_store_hashes t = seen_store_hashes s"
  shows "hashes_inv hash (done @ [p]) (start_pending t)"
proof -
  let ?old = "done @ handle_store_paths s @ pending_handle_store_paths s"
  let ?new = "(done @ [p]) @ handle_store_paths (start_pending t) @ pending_handle_store_paths (start_pending t)"
  have "mset ?new = mset ?old"
    using assms(2-4) by (auto simp: start_pending_def split: list.split)
  then have "distinct (map hash ?new) = distinct (map hash ?old)" "set ?new = set ?old"
    by (metis mset_eq_imp_distinct_iff mset_map) (metis \<open>mset ?new = mset ?old\<close> set_mset_mset)
  then show ?thesis
    using assms(1,5) by (simp only: hashes_inv_def Let_def start_pending_frame)
qed

lemma hashes_inv_frame:
  "handle_store_paths t = handle_store_paths s \<Longrightarrow>
   pending_handle_store_paths t = pending_handle_store_paths s \<Longrightarrow>
   seen_store_hashes t = seen_store_hashes s \<Longrightarrow> hashes_inv hash done t = hashes_inv hash done s"
  by (simp add: hashes_inv_def)

lemma hashes_inv_run:
  assumes "exec (loop_step E rd hash) ls loop_init = Some s"
  shows "hashes_inv hash (map fst (handled ls)) s \<and>
    seen_store_hashes s = hash ` closure_paths (closures ls)"
  using assms
proof (induction rule: exec_snoc_induct)
  case start
  show ?case by (simp add: loop_init_def hashes_inv_def)
next
  case (step ls l u v)
  show ?case
  proof (cases l rule: label_cases)
    case (closure p res)
    let ?u = "u\<lparr>store_closures := remove1 p (store_closures u)\<rparr>"
    have u: "hashes_inv hash (map fst (handled ls)) ?u" "seen_store_hashes ?u = hash ` closure_paths (closures ls)"
      using step.IH by (simp_all add: hashes_inv_def)
    have v: "v = on_closure hash p res ?u"
      using closure_step [OF step.hyps(2) [unfolded closure]] by blast
    show ?thesis
    proof (cases res)
      case (Inl e)
      then show ?thesis using u closure by (simp add: v hashes_inv_def)
    next
      case (Inr ps)
      then show ?thesis
        using hashes_inv_admit_fold [OF u(1), of ps] u closure by (simp add: v image_Un)
    qed
  next
    case (path p res)
    from step.hyps(2) [unfolded path] show ?thesis
    proof (cases rule: path_step)
      case (1 t)
      then show ?thesis
        using step.IH path hashes_inv_complete [OF conjunct1 [OF step.IH] 1(2-5)] by simp
    qed
  next
    case quiet
    show ?thesis
      using quiet_step [OF quiet step.hyps(2)] step.IH by (simp add: hashes_inv_def)
  qed
qed

section \<open>The report\<close>

definition report_of :: "('path \<times> 'herr handle_result) list \<Rightarrow> ('path \<times> ('cerr + 'path list)) list \<Rightarrow>
    ('path, 'cerr, 'herr) action_report" where
  "report_of hs cs =
     \<lparr>num_bytes_pushed = sum_list [n. (p, Inr (Some n)) \<leftarrow> hs],
      num_paths_pushed = of_nat (length [p. (p, Inr (Some n)) \<leftarrow> hs]),
      num_paths_skipped = of_nat (length [p. (p, Inr None) \<leftarrow> hs]),
      path_closure_errors = [(p, e). (p, Inl e) \<leftarrow> cs],
      path_handling_errors = [(p, e). (p, Inl e) \<leftarrow> hs]\<rparr>"

lemma report_of_handled: "report_of (hs @ [(p, res)]) cs = record_result p res (report_of hs cs)"
  by (cases "(p, res, report_of hs cs)" rule: record_result.cases) (auto simp: report_of_def)

lemma report_run:
  assumes "exec (loop_step E rd hash) ls loop_init = Some s"
  shows "report s = report_of (handled ls) (closures ls)"
  using assms
proof (induction rule: exec_snoc_induct)
  case start
  show ?case by (simp add: loop_init_def report_of_def action_report_default_def)
next
  case (step ls l u v)
  show ?case
  proof (cases l rule: label_cases)
    case (closure p res)
    then show ?thesis
      using closure_step [OF step.hyps(2) [unfolded closure]] step.IH
      by (cases res) (auto simp: report_of_def)
  next
    case (path p res)
    from step.hyps(2) [unfolded path] show ?thesis
      by (cases rule: path_step) (use path step.IH in \<open>simp add: report_of_handled\<close>)
  next
    case quiet
    show ?thesis
      using quiet_step [OF quiet step.hyps(2)] step.IH by simp
  qed
qed

section \<open>Messages\<close>

text \<open>
  Every push received has its closure computed or in flight, the stop writer is that of the
  last stop received, and every receive error is passed to the context.
\<close>

lemma messages_run:
  assumes "exec (loop_step E rd hash) ls loop_init = Some s"
  shows "mset (store_closures s) + mset (map fst (closures ls)) = mset (pushes (received ls)) \<and>
    stop_progress_writer s = (if stops (received ls) = [] then None else Some (last (stops (received ls)))) \<and>
    rx_errors s = errors (received ls)"
  using assms
proof (induction rule: exec_snoc_induct)
  case start
  show ?case by (simp add: loop_init_def)
next
  case (step ls l u v)
  show ?case
  proof (cases l)
    case (ClosureDone p res)
    have "store_closures v = remove1 p (store_closures u)" "p \<in> set (store_closures u)"
      "stop_progress_writer v = stop_progress_writer u" "rx_errors v = rx_errors u"
      using closure_step [OF step.hyps(2) [unfolded ClosureDone]] by (cases res; auto)+
    moreover have "p \<in># mset (pushes (received ls))"
      using step.IH calculation(2) by (metis in_multiset_in_set union_iff)
    ultimately show ?thesis
      using step.IH ClosureDone by simp
  next
    case (PathHandled p res)
    from step.hyps(2) [unfolded PathHandled] show ?thesis
      by (cases rule: path_step) (use PathHandled step.IH in simp)
  next
    case (Received m)
    then have "v = on_message m (u\<lparr>messages := tl (messages u)\<rparr>)"
      using step.hyps(2) by (auto split: if_splits list.splits)
    then show ?thesis
      using step.IH Received by (cases "(m, u)" rule: on_message.cases) auto
  qed (use step.hyps(2) step.IH in \<open>auto simp: on_io_def on_break_def on_finish_def split: if_splits\<close>)
qed

section \<open>Draining\<close>

definition work_left :: "('path, 'hash, 'perr, 'cerr, 'herr, 'r, 'wr) loop_state \<Rightarrow> nat" where
  "work_left s = length (handle_store_paths s) + length (pending_handle_store_paths s)"

fun is_path_handled :: "('path, 'perr, 'cerr, 'herr, 'r, 'wr) label \<Rightarrow> bool" where
  "is_path_handled (PathHandled p res) = True"
| "is_path_handled l = False"

lemma length_filter_handled [simp]: "length (filter is_path_handled ls) = length (handled ls)"
  by (induction ls rule: handled.induct) simp_all

text \<open>Once the loop has been left, no closure is in flight and none is started.\<close>

definition drain_inv :: "('path, 'hash, 'perr, 'cerr, 'herr, 'r, 'wr) loop_state \<Rightarrow> bool" where
  "drain_inv s \<longleftrightarrow> phase s \<noteq> Looping \<and> store_closures s = []"

lemma work_left_start_pending [simp]: "work_left (start_pending s) = work_left s"
  by (simp add: work_left_def start_pending_def split: list.split)

lemma drain_step:
  assumes "drain_inv s" "loop_step E rd hash l s = Some t"
  shows "drain_inv t" "work_left t + (if is_path_handled l then 1 else 0) = work_left s"
proof -
  have "drain_inv t \<and> work_left t + (if is_path_handled l then 1 else 0) = work_left s"
  proof (cases "\<exists>p res. l = PathHandled p res")
    case True
    then obtain p res where l: "l = PathHandled p res" by blast
    from assms(2) [unfolded l] show ?thesis
    proof (cases rule: path_step)
      case (1 u)
      moreover have "0 < length (handle_store_paths s)"
        using 1(2) by (cases "handle_store_paths s") auto
      ultimately show ?thesis
        using assms(1) l by (simp add: drain_inv_def) (simp add: work_left_def length_remove1)
    qed
  next
    case False
    then show ?thesis
      using assms by (cases l) (auto simp: drain_inv_def work_left_def on_finish_def split: if_splits)
  qed
  then show "drain_inv t" "work_left t + (if is_path_handled l then 1 else 0) = work_left s"
    by auto
qed

interpretation drain: step_budget "loop_step E rd hash" drain_inv is_path_handled work_left for E rd hash
  by unfold_locales (rule drain_step; assumption)+

lemma on_closure_frame [simp]:
  "phase (on_closure hash p res s) = phase s" "reporter (on_closure hash p res s) = reporter s"
  "store_closures (on_closure hash p res s) = store_closures s"
  "stop_progress_writer (on_closure hash p res s) = stop_progress_writer s"
  by (cases res; simp)+

lemma looping_step:
  "loop_step E rd hash l u = Some v \<Longrightarrow> phase u = Looping \<Longrightarrow>
     (if l = Break then v = on_break u \<and> loop_breaks u else phase v = Looping \<and> reporter v = reporter u)"
  by (cases l) (auto simp: on_io_def on_handled_def split: if_splits list.splits)

text \<open>A run that has left the loop did so at a \<open>Break\<close>.\<close>

lemma break_split:
  assumes "exec (loop_step E rd hash) ls loop_init = Some s"
  shows "(phase s = Looping \<and> reporter s = []) \<or>
    (\<exists>ls1 ls2 u. ls = ls1 @ Break # ls2 \<and> exec (loop_step E rd hash) ls1 loop_init = Some u \<and>
       loop_breaks u \<and> reporter u = [] \<and> exec (loop_step E rd hash) ls2 (on_break u) = Some s)"
  using assms
proof (induction rule: exec_snoc_induct)
  case start
  show ?case by (simp add: loop_init_def)
next
  case (step ls l u v)
  from step.IH show ?case
  proof
    assume u: "phase u = Looping \<and> reporter u = []"
    show ?thesis
    proof (cases "l = Break")
      case True
      with u looping_step [OF step.hyps(2)] step.hyps(1) show ?thesis
        by (intro disjI2 exI [of _ ls] exI [of _ "[]"] exI [of _ u]) simp
    next
      case False
      with u looping_step [OF step.hyps(2)] show ?thesis by simp
    qed
  next
    assume "\<exists>ls1 ls2 w. ls = ls1 @ Break # ls2 \<and> exec (loop_step E rd hash) ls1 loop_init = Some w \<and>
       loop_breaks w \<and> reporter w = [] \<and> exec (loop_step E rd hash) ls2 (on_break w) = Some u"
    then obtain ls1 ls2 w where "ls = ls1 @ Break # ls2" "exec (loop_step E rd hash) ls1 loop_init = Some w"
       "loop_breaks w" "reporter w = []" "exec (loop_step E rd hash) ls2 (on_break w) = Some u" by blast
    with step.hyps(2) show ?thesis
      by (intro disjI2 exI [of _ ls1] exI [of _ "ls2 @ [l]"] exI [of _ w]) (simp add: exec_snoc)
  qed
qed

lemma drain_reports:
  assumes "exec (loop_step E rd hash) ls s = Some t" "phase s = Draining"
  shows "phase t \<noteq> Looping \<and>
    reporter t = reporter s @ map (\<lambda>(p, res). report_result p res) (handled ls) @
      (if phase t = Finished then [ReportFinalReport (report t)] else [])"
  using assms(1)
proof (induction rule: exec_snoc_induct)
  case start
  with assms(2) show ?case by simp
next
  case (step ls l u v)
  show ?case
  proof (cases l)
    case (PathHandled p res)
    then have "phase u = Draining" "v = on_drained p res u"
      using step.hyps(2) step.IH by (auto split: if_splits phase.splits)
    then show ?thesis
      using step.IH PathHandled by (simp add: on_drained_def)
  next
    case Finish
    then have "phase u = Draining" "v = on_finish u"
      using step.hyps(2) by (auto split: if_splits)
    then show ?thesis
      using step.IH Finish by (simp add: on_finish_def)
  qed (use step.hyps(2) step.IH in \<open>auto split: if_splits\<close>)
qed

lemma pool_inv_init: "pool_inv loop_init"
  by (simp add: pool_inv_def loop_init_def)

lemma finished_run:
  assumes "exec (loop_step E rd hash) ls loop_init = Some s" "phase s = Finished"
  shows "work_left s = 0" "store_closures s = []" "handle_store_paths s = []" "pending_handle_store_paths s = []"
proof -
  obtain ls1 ls2 u where b: "loop_breaks u" "exec (loop_step E rd hash) ls2 (on_break u) = Some s"
    using break_split [OF assms(1)] assms(2) by auto
  have "drain_inv (on_break u)"
    using b(1) by (simp add: drain_inv_def on_break_def loop_breaks_def)
  then have closures: "store_closures s = []"
    using drain.exec_inv [OF b(2)] by (simp add: drain_inv_def)
  have "handle_store_paths s = []"
    using b(2) assms(2)
  proof (induction rule: exec_snoc_induct)
    case start
    then show ?case by (simp add: on_break_def)
  next
    case (step ls l v w)
    then show ?case
      by (cases l) (auto simp: on_io_def on_handled_def on_drained_def on_finish_def on_break_def
          split: if_splits list.splits phase.splits)
  qed
  with pool.exec_inv [OF assms(1) pool_inv_init] closures
  show "work_left s = 0" "store_closures s = []" "handle_store_paths s = []" "pending_handle_store_paths s = []"
    by (auto simp: pool_inv_def work_left_def MAX_CONCURRENT_STORE_PATHS_def)
qed

section \<open>The abstract work pool\<close>

text \<open>
  What the loop promises, without tasks and queues: the hashes it owes work for and the hashes
  it is done with. New work is admitted unless it is settled, and only owed work is settled.
\<close>

record 'hash pool_spec =
  outstanding :: "'hash set"
  settled :: "'hash set"

datatype 'hash pool_label = Admit "'hash set" | Settle 'hash

fun pool_step :: "'hash pool_label \<Rightarrow> 'hash pool_spec \<Rightarrow> 'hash pool_spec option" where
  "pool_step (Admit H) a = Some (a\<lparr>outstanding := outstanding a \<union> (H - settled a)\<rparr>)"
| "pool_step (Settle h) a =
     (if h \<in> outstanding a
      then Some (a\<lparr>outstanding := outstanding a - {h}, settled := insert h (settled a)\<rparr>) else None)"

definition owed :: "('path \<Rightarrow> 'hash) \<Rightarrow> ('path, 'hash, 'perr, 'cerr, 'herr, 'r, 'wr) loop_state \<Rightarrow> 'hash set" where
  "owed hash s = hash ` (set (handle_store_paths s) \<union> set (pending_handle_store_paths s))"

definition pool_abs :: "('path \<Rightarrow> 'hash) \<Rightarrow> ('path, 'hash, 'perr, 'cerr, 'herr, 'r, 'wr) loop_state \<Rightarrow> 'hash pool_spec" where
  "pool_abs hash s = \<lparr>outstanding = owed hash s, settled = seen_store_hashes s - owed hash s\<rparr>"

fun pool_labels :: "('path \<Rightarrow> 'hash) \<Rightarrow> ('path, 'perr, 'cerr, 'herr, 'r, 'wr) label \<Rightarrow> 'hash pool_label list" where
  "pool_labels hash (ClosureDone p (Inr ps)) = [Admit (hash ` set ps)]"
| "pool_labels hash (PathHandled p res) = [Settle (hash p)]"
| "pool_labels hash l = []"

definition work_inv :: "('path \<Rightarrow> 'hash) \<Rightarrow> ('path, 'hash, 'perr, 'cerr, 'herr, 'r, 'wr) loop_state \<Rightarrow> bool" where
  "work_inv hash s \<longleftrightarrow>
     distinct (map hash (handle_store_paths s @ pending_handle_store_paths s)) \<and>
     owed hash s \<subseteq> seen_store_hashes s"

lemma work_inv_admit:
  "work_inv hash s \<Longrightarrow> work_inv hash (admit_path hash p s) \<and>
     owed hash (admit_path hash p s) = owed hash s \<union> ({hash p} - seen_store_hashes s) \<and>
     seen_store_hashes (admit_path hash p s) = insert (hash p) (seen_store_hashes s)"
  by (auto simp: work_inv_def owed_def admit_path_def Let_def)

lemma work_inv_admit_fold:
  "work_inv hash s \<Longrightarrow> work_inv hash (fold (admit_path hash) ps s) \<and>
     owed hash (fold (admit_path hash) ps s) = owed hash s \<union> (hash ` set ps - seen_store_hashes s) \<and>
     seen_store_hashes (fold (admit_path hash) ps s) = seen_store_hashes s \<union> hash ` set ps"
proof (induction ps arbitrary: s)
  case (Cons p ps)
  show ?case
    using Cons.IH [of "admit_path hash p s"] work_inv_admit [OF Cons.prems, of p] by auto
qed simp

lemma work_inv_complete:
  assumes "work_inv hash s" "p \<in> set (handle_store_paths s)"
    and "handle_store_paths t = remove1 p (handle_store_paths s)"
    and "pending_handle_store_paths t = pending_handle_store_paths s"
    and "seen_store_hashes t = seen_store_hashes s"
  shows "work_inv hash (start_pending t) \<and> owed hash (start_pending t) = owed hash s - {hash p} \<and> hash p \<in> owed hash s"
proof -
  let ?work = "\<lambda>s. handle_store_paths s @ pending_handle_store_paths s"
  have m: "mset (p # ?work (start_pending t)) = mset (?work s)"
    using assms(2-4) by (auto simp: start_pending_def split: list.split)
  have "distinct (map hash (p # ?work (start_pending t)))"
    using assms(1) m by (metis work_inv_def mset_eq_imp_distinct_iff mset_map)
  then have fresh: "distinct (map hash (?work (start_pending t)))" "hash p \<notin> owed hash (start_pending t)"
    by (auto simp: owed_def)
  have "set (p # ?work (start_pending t)) = set (?work s)"
    using m by (metis set_mset_mset)
  then have owed: "insert (hash p) (owed hash (start_pending t)) = owed hash s"
    unfolding owed_def by (metis image_insert list.simps(15) set_append)
  then have "owed hash (start_pending t) = owed hash s - {hash p}" "hash p \<in> owed hash s"
    using fresh(2) by blast+
  with fresh(1) assms(1,5) show ?thesis
    unfolding work_inv_def start_pending_frame by blast
qed

lemma work_inv_frame:
  assumes "handle_store_paths t = handle_store_paths s" "pending_handle_store_paths t = pending_handle_store_paths s"
    "seen_store_hashes t = seen_store_hashes s"
  shows "work_inv hash t = work_inv hash s" "pool_abs hash t = pool_abs hash s"
  using assms by (simp_all add: work_inv_def pool_abs_def owed_def)

lemma pool_simulates:
  assumes "work_inv hash s" "loop_step E rd hash l s = Some t"
  shows "work_inv hash t \<and> exec pool_step (pool_labels hash l) (pool_abs hash s) = Some (pool_abs hash t)"
proof (cases l rule: label_cases)
  case (closure p res)
  let ?s = "s\<lparr>store_closures := remove1 p (store_closures s)\<rparr>"
  have s: "work_inv hash ?s" "pool_abs hash ?s = pool_abs hash s" "owed hash ?s = owed hash s"
    using assms(1) work_inv_frame [of ?s s] by (simp_all add: owed_def)
  have t: "t = on_closure hash p res ?s"
    using closure_step [OF assms(2) [unfolded closure]] by blast
  show ?thesis
  proof (cases res)
    case (Inl e)
    then show ?thesis
      using closure s work_inv_frame [of t s] assms(1) by (simp add: t)
  next
    case (Inr ps)
    then show ?thesis
      using closure work_inv_admit_fold [OF s(1), of ps] s assms(1)
      by (auto simp: t pool_abs_def work_inv_def)
  qed
next
  case (path p res)
  from assms(2) [unfolded path] show ?thesis
  proof (cases rule: path_step)
    case (1 u)
    then show ?thesis
      using work_inv_complete [OF assms(1) 1(2-5)] path assms(1)
      by (auto simp: pool_abs_def work_inv_def)
  qed
next
  case quiet
  note q = quiet_step(1-3) [OF quiet assms(2)]
  have "pool_labels hash l = []"
    using quiet by (cases l) auto
  then show ?thesis
    using work_inv_frame [OF q] assms(1) by simp
qed

interpretation pool_refinement:
  forward_simulation "loop_step E rd hash" "work_inv hash" pool_step "pool_abs hash" "pool_labels hash" for E rd hash
  by unfold_locales (auto dest: pool_simulates)

section \<open>The connection task\<close>

fun handle_io_run ::
  "('path, 'perr) wire_env \<Rightarrow> 'r poll_read_fn \<Rightarrow> 'wr \<Rightarrow> nat \<Rightarrow> 'r io_task \<Rightarrow>
     ('path, 'perr, 'wr) channel_message list \<times> 'r io_task" where
  "handle_io_run E rd w 0 t = ([], t)"
| "handle_io_run E rd w (Suc n) t =
     (let (ms, t') = handle_io_turn E rd w t; (ms', t'') = handle_io_run E rd w n t' in (ms @ ms', t''))"

text \<open>The channel message an item becomes.\<close>

fun item_event :: "'wr \<Rightarrow> ('path, 'perr) item \<Rightarrow> ('path, 'perr, 'wr) channel_message" where
  "item_event w (Inl e) = Inl e"
| "item_event w (Inr (PushStorePath p)) = Inr (EventPushStorePath p)"
| "item_event w (Inr StopDaemon) = Inr (EventStop w)"

lemma handle_io_run_returned [simp]: "handle_io_run E rd w n IoReturned = ([], IoReturned)"
  by (induction n) simp_all

lemma handle_io_turn_item:
  assumes "poll_next E rd s = (Some (Ready (Some it)), s')"
  shows "handle_io_turn E rd w (IoRunning s) =
     ([item_event w it], if it = Ok StopDaemon then IoReturned else IoRunning s')"
  using assms by (cases "(w, it)" rule: item_event.cases) simp_all

lemma handle_io_run_done: "is_done s \<Longrightarrow> 0 < n \<Longrightarrow> handle_io_run E rd w n (IoRunning s) = ([], IoReturned)"
  by (cases n) (simp_all add: poll_next_done)

lemma handle_io_run_final:
  assumes "final_item it" "is_done s'" "0 < n"
  shows "handle_io_run E rd w n (if it = Ok StopDaemon then IoReturned else IoRunning s') = ([], IoReturned)"
  using assms by (simp add: handle_io_run_done)

context async_read_live
begin

lemma handle_io_run_decode:
  assumes E: "memchr_ok E"
  shows "receiver_wf s \<Longrightarrow> \<not> is_done s \<Longrightarrow> live (rreader s) \<Longrightarrow>
     weight (rreader s) + length (unhandled s) + 1 < n \<Longrightarrow>
     handle_io_run E poll_read w n (IoRunning s) = (map (item_event w) (decode E (unread stream s)), IoReturned)"
proof (induction n arbitrary: s)
  case 0
  then show ?case by simp
next
  case (Suc n)
  obtain out s' where p: "poll_next E poll_read s = (out, s')"
    by (cases "poll_next E poll_read s")
  from E Suc.prems(1,2) p show ?case
  proof (cases rule: poll_next_cases)
    case (item it t)
    with Suc.prems(3) have step: "decode_step E (unread stream s) = Some (it, unread stream t)"
      and t: "receiver_wf t" "live (rreader t)" "is_done t = is_done s"
      and w: "final_item it \<or> weight (rreader t) + length (unhandled t) < weight (rreader s) + length (unhandled s)"
      by (auto simp: receive_post_def)
    note turn = handle_io_turn_item [OF p [unfolded item(1)], of w]
    show ?thesis
    proof (cases "final_item it")
      case True
      with item Suc.prems(4) have "handle_io_run E poll_read w n
          (if it = Ok StopDaemon then IoReturned else IoRunning s') = ([], IoReturned)"
        by (intro handle_io_run_final) auto
      with True turn show ?thesis by (simp add: decode_Some [OF step])
    next
      case False
      then have "it \<noteq> Ok StopDaemon" by auto
      with False turn show ?thesis
        using Suc.IH [of s'] Suc.prems item t w by (simp add: decode_Some [OF step])
    qed
  next
    case no_item
    then show ?thesis
      using Suc.IH [of s'] Suc.prems p by (auto simp: receive_post_def decode_None)
  qed
qed

end

section \<open>A concrete run\<close>

text \<open>
  One connection pushes a path and stops the daemon; the path's closure has two members and
  names one of them twice.
\<close>

definition sample_labels :: "(string, unit, unit, unit, script_reader, unit) label list" where
  "sample_labels =
     [Accepted sample_reader (), IoTurn 0, IoTurn 0, IoTurn 0,
      Received (Ok (EventPushStorePath ''/nix/store/a'')), Received (Ok (EventStop ())),
      ClosureDone ''/nix/store/a'' (Ok [''/nix/store/a'', ''/nix/store/b'', ''/nix/store/a'']), Break,
      PathHandled ''/nix/store/b'' (Ok None), PathHandled ''/nix/store/a'' (Ok (Some 300)), Finish]"

abbreviation sample_step ::
  "(string, unit, unit, unit, script_reader, unit) label \<Rightarrow>
     (string, string, unit, unit, unit, script_reader, unit) loop_state \<Rightarrow>
     (string, string, unit, unit, unit, script_reader, unit) loop_state option" where
  "sample_step \<equiv> loop_step sample_env sr_poll_read (\<lambda>p. p)"

lemma sample_run_phases:
  "map_option phase (exec sample_step sample_labels loop_init) = Some Finished"
  "map_option phase (exec sample_step (take 8 sample_labels) loop_init) = Some Draining"
  by code_simp+

lemma sample_run:
  obtains s where "exec sample_step sample_labels loop_init = Some s" "phase s = Finished"
  using sample_run_phases(1) by auto

lemma sample_handled: "handled sample_labels = [(''/nix/store/b'', Ok None), (''/nix/store/a'', Ok (Some 300))]"
  and sample_closures: "closures sample_labels =
    [(''/nix/store/a'', Ok [''/nix/store/a'', ''/nix/store/b'', ''/nix/store/a''])]"
  and sample_received: "received sample_labels = [Ok (EventPushStorePath ''/nix/store/a''), Ok (EventStop ())]"
  by (simp_all add: sample_labels_def)

section \<open>Properties\<close>

text \<open>
  C4: Every store path of every closure that could be computed is handled exactly once, up to
  its hash, by the time the daemon is done: the hashes of the paths handled are pairwise
  different and are exactly the hashes of the closures' paths.
\<close>

theorem handled_exactly_once:
  assumes "exec (loop_step E rd hash) ls loop_init = Some s" "phase s = Finished"
  shows "distinct (map (hash \<circ> fst) (handled ls)) \<and>
     (hash \<circ> fst) ` set (handled ls) = hash ` closure_paths (closures ls)"
  using hashes_inv_run [OF assms(1)] finished_run [OF assms]
  by (simp add: hashes_inv_def image_image comp_def)

theorem handled_exactly_once_witness:
  "distinct (map ((\<lambda>p. p) \<circ> fst) (handled sample_labels)) \<and>
   (\<lambda>p. p) ` closure_paths (closures sample_labels) = {''/nix/store/b'', ''/nix/store/a''}"
proof -
  obtain s where s: "exec sample_step sample_labels loop_init = Some s" "phase s = Finished"
    by (rule sample_run)
  from handled_exactly_once [OF s] show ?thesis by (simp add: sample_handled)
qed

text \<open>
  At every moment of every run the hashes of the paths handled, in flight and waiting are
  pairwise different: no store path is ever worked on twice.
\<close>

theorem no_path_twice:
  assumes "exec (loop_step E rd hash) ls loop_init = Some s"
  shows "distinct (map hash (map fst (handled ls) @ handle_store_paths s @ pending_handle_store_paths s))"
  using hashes_inv_run [OF assms] by (simp add: hashes_inv_def)

theorem no_path_twice_witness:
  "\<exists>s. exec sample_step (take 8 sample_labels) loop_init = Some s \<and>
     distinct (map (\<lambda>p. p) (map fst (handled (take 8 sample_labels)) @ handle_store_paths s @
       pending_handle_store_paths s))"
proof -
  obtain s where s: "exec sample_step (take 8 sample_labels) loop_init = Some s"
    using sample_run_phases(2) by auto
  with no_path_twice [OF s] show ?thesis by blast
qed

lemma concurrency_bound_inv: "exec (loop_step E rd hash) ls loop_init = Some s \<Longrightarrow> pool_inv s"
  by (rule pool.exec_inv [OF _ pool_inv_init])

text \<open>
  C15: At most 32 store paths are handled concurrently, and a path waits only while exactly 32
  are in flight.
\<close>

theorem concurrency_bound:
  assumes "exec (loop_step E rd hash) ls loop_init = Some s"
  shows "length (handle_store_paths s) \<le> MAX_CONCURRENT_STORE_PATHS \<and>
     (pending_handle_store_paths s \<noteq> [] \<longrightarrow> length (handle_store_paths s) = MAX_CONCURRENT_STORE_PATHS)"
  using concurrency_bound_inv [OF assms] by (simp add: pool_inv_def)

theorem concurrency_bound_witness:
  "\<exists>s. exec sample_step (take 8 sample_labels) loop_init = Some s \<and> length (handle_store_paths s) \<le> 32"
proof -
  obtain s where s: "exec sample_step (take 8 sample_labels) loop_init = Some s"
    using sample_run_phases(2) by auto
  with concurrency_bound [OF s] show ?thesis by (simp add: MAX_CONCURRENT_STORE_PATHS_def)
qed

text \<open>
  C16: The report is exact: its counters (modulo their width) and error lists are those of the
  outcomes the loop saw, in order.
\<close>

theorem report_exact:
  assumes "exec (loop_step E rd hash) ls loop_init = Some s"
  shows "report s = report_of (handled ls) (closures ls)"
  by (rule report_run [OF assms])

theorem report_exact_witness:
  "\<exists>s. exec sample_step sample_labels loop_init = Some s \<and>
     report s = \<lparr>num_bytes_pushed = 300, num_paths_pushed = 1, num_paths_skipped = 1,
       path_closure_errors = [], path_handling_errors = []\<rparr>"
proof -
  obtain s where s: "exec sample_step sample_labels loop_init = Some s"
    by (rule sample_run)
  with report_exact [OF s] show ?thesis
    by (simp add: report_of_def sample_handled sample_closures)
qed

lemma length_handled_outcomes:
  "length [p. (p, Inr (Some n)) \<leftarrow> hs] + length [p. (p, Inr None) \<leftarrow> hs] + length [(p, e). (p, Inl e) \<leftarrow> hs] = length hs"
proof (induction hs)
  case (Cons h hs)
  obtain p r where h: "h = (p, r)" by (cases h)
  show ?case
    using Cons by (cases r; cases "projr r") (auto simp: h)
qed simp

text \<open>
  When the daemon is done, the paths pushed, skipped and failed add up to the number of
  different store paths in the closures, provided that number fits the 32-bit counters.
\<close>

theorem report_accounts_for_every_path:
  assumes "exec (loop_step E rd hash) ls loop_init = Some s" "phase s = Finished"
    and "card (hash ` closure_paths (closures ls)) < 2 ^ 32"
  shows "unat (num_paths_pushed (report s)) + unat (num_paths_skipped (report s)) +
     length (path_handling_errors (report s)) = card (hash ` closure_paths (closures ls))"
proof -
  have "card (hash ` closure_paths (closures ls)) = length (handled ls)"
    using hashes_inv_run [OF assms(1)] finished_run [OF assms(1,2)]
    by (metis (no_types, lifting) append_Nil2 distinct_card hashes_inv_def length_map list.set_map)
  with assms(3) show ?thesis
    using length_handled_outcomes [of "handled ls"]
    by (simp add: report_run [OF assms(1)] report_of_def unat_of_nat)
qed

theorem report_accounts_for_every_path_witness:
  "\<exists>s. exec sample_step sample_labels loop_init = Some s \<and>
     unat (num_paths_pushed (report s)) + unat (num_paths_skipped (report s)) +
     length (path_handling_errors (report s)) = 2"
proof -
  obtain s where s: "exec sample_step sample_labels loop_init = Some s" "phase s = Finished"
    by (rule sample_run)
  have "(\<lambda>p. p) ` closure_paths (closures sample_labels) = {''/nix/store/a'', ''/nix/store/b''}"
    by (auto simp: closure_paths_def sample_closures)
  with report_accounts_for_every_path [OF s] s(1) show ?thesis by simp
qed

text \<open>
  Every push received is served: when the daemon is done, the closures computed are those
  of exactly the store paths received, with their multiplicity; every receive error was passed
  on, and the reporter writes to the connection of the last stop received.
\<close>

theorem every_push_served:
  assumes "exec (loop_step E rd hash) ls loop_init = Some s" "phase s = Finished"
  shows "mset (map fst (closures ls)) = mset (pushes (received ls)) \<and>
     rx_errors s = errors (received ls) \<and> stops (received ls) \<noteq> [] \<and>
     stop_progress_writer s = Some (last (stops (received ls)))"
proof -
  obtain ls2 u where b: "loop_breaks u" "exec (loop_step E rd hash) ls2 (on_break u) = Some s"
    using break_split [OF assms(1)] assms(2) by auto
  have "stop_progress_writer s = stop_progress_writer (on_break u)"
    using b(2)
  proof (induction rule: exec_snoc_induct)
    case (step ls l v w)
    have "phase v \<noteq> Looping"
      using drain_reports [OF step.hyps(1)] by (simp add: on_break_def)
    with step show ?case
      by (cases l) (auto simp: on_drained_def on_finish_def split: if_splits phase.splits)
  qed simp
  then have "stop_progress_writer s \<noteq> None"
    using b(1) by (simp add: on_break_def loop_breaks_def)
  then show ?thesis
    using messages_run [OF assms(1)] finished_run(2) [OF assms] by (auto split: if_splits)
qed

theorem every_push_served_witness:
  "\<exists>s. exec sample_step sample_labels loop_init = Some s \<and> rx_errors s = [] \<and>
     stop_progress_writer s = Some ()"
proof -
  obtain s where s: "exec sample_step sample_labels loop_init = Some s" "phase s = Finished"
    by (rule sample_run)
  with every_push_served [OF s] show ?thesis by (simp add: sample_received)
qed

text \<open>
  C27: Draining terminates: from the moment the loop is left, exactly as many paths are still
  handled as were in flight or waiting, and none of them is left when the daemon is done: a stop
  does not cancel pending uploads, unlike what the comment on the stop byte in
  \<open>src/protocol.rs\<close> says.
\<close>

theorem drain_terminates:
  assumes "exec (loop_step E rd hash) ls1 loop_init = Some s" "phase s = Draining"
    and "exec (loop_step E rd hash) ls2 s = Some t"
  shows "length (handled ls2) + work_left t = work_left s \<and> (phase t = Finished \<longrightarrow> work_left t = 0)"
proof -
  obtain ls3 u where b: "loop_breaks u" "exec (loop_step E rd hash) ls3 (on_break u) = Some s"
    using break_split [OF assms(1)] assms(2) by auto
  have "drain_inv (on_break u)"
    using b(1) by (simp add: drain_inv_def on_break_def loop_breaks_def)
  then have "drain_inv s"
    by (rule drain.exec_inv [OF b(2)])
  moreover have "exec (loop_step E rd hash) (ls1 @ ls2) loop_init = Some t"
    using assms(1,3) by (simp add: exec_append)
  ultimately show ?thesis
    using drain.exec_budget [OF assms(3)] finished_run(1) by fastforce
qed

theorem drain_terminates_witness:
  "\<exists>s t. exec sample_step (take 8 sample_labels) loop_init = Some s \<and>
     exec sample_step (drop 8 sample_labels) s = Some t \<and> work_left s = 2 \<and> work_left t = 0"
proof -
  obtain s where s: "exec sample_step (take 8 sample_labels) loop_init = Some s" "phase s = Draining"
    using sample_run_phases(2) by auto
  obtain t where t: "exec sample_step (drop 8 sample_labels) s = Some t" "phase t = Finished"
    using sample_run_phases(1) exec_append [of sample_step "take 8 sample_labels" "drop 8 sample_labels" loop_init] s
    by auto
  have "length (handled (drop 8 sample_labels)) = 2"
    by (simp add: sample_labels_def)
  with drain_terminates [OF s t(1)] s t show ?thesis by auto
qed

text \<open>
  Draining never gets stuck: either nothing is left and the final report can be made, or
  some path is in flight and its completion, with whatever outcome, is a step.
\<close>

theorem drain_progress:
  assumes "exec (loop_step E rd hash) ls loop_init = Some s" "phase s = Draining"
  shows "(work_left s = 0 \<and> loop_step E rd hash Finish s = Some (on_finish s)) \<or>
     (\<exists>p. \<forall>res. loop_step E rd hash (PathHandled p res) s = Some (on_drained p res s))"
proof (cases "handle_store_paths s")
  case Nil
  then show ?thesis
    using concurrency_bound_inv [OF assms(1)] assms(2)
    by (auto simp: work_left_def pool_inv_def MAX_CONCURRENT_STORE_PATHS_def)
next
  case (Cons p ps)
  with assms(2) show ?thesis by (intro disjI2 exI [of _ p]) simp
qed

theorem drain_progress_witness:
  "\<exists>s. exec sample_step (take 8 sample_labels) loop_init = Some s \<and>
     ((work_left s = 0 \<and> sample_step Finish s = Some (on_finish s)) \<or>
      (\<exists>p. \<forall>res. sample_step (PathHandled p res) s = Some (on_drained p res s)))"
proof -
  obtain s where s: "exec sample_step (take 8 sample_labels) loop_init = Some s" "phase s = Draining"
    using sample_run_phases(2) by auto
  with drain_progress [OF s] show ?thesis by blast
qed

text \<open>
  The progress reporter is called with the truth: nothing before the loop is left, then
  the number of paths left (as a 32-bit number), then one call per path handled while draining,
  in order, and at the end the final report.
\<close>

theorem reporter_calls_exact:
  assumes "exec (loop_step E rd hash) ls loop_init = Some s" "phase s = Finished"
  shows "\<exists>ls1 ls2. ls = ls1 @ Break # ls2 \<and>
     reporter s = ReportPathsLeftToHandle (of_nat (length (handled ls2))) #
       map (\<lambda>(p, res). report_result p res) (handled ls2) @ [ReportFinalReport (report s)]"
proof -
  obtain ls1 ls2 u where b: "ls = ls1 @ Break # ls2" "loop_breaks u" "reporter u = []"
      "exec (loop_step E rd hash) ls2 (on_break u) = Some s"
    using break_split [OF assms(1)] assms(2) by auto
  have d: "drain_inv (on_break u)"
    using b(2) by (simp add: drain_inv_def on_break_def loop_breaks_def)
  have "length (handled ls2) = work_left (on_break u)"
    using drain.exec_budget [OF b(4) d] finished_run(1) [OF assms] by simp
  moreover have "reporter (on_break u) = [ReportPathsLeftToHandle (of_nat (work_left (on_break u)))]"
    by (simp add: on_break_def work_left_def)
  moreover have "phase (on_break u) = Draining"
    by (simp add: on_break_def)
  ultimately show ?thesis
    using drain_reports [OF b(4)] b(1) assms(2) by (intro exI [of _ ls1] exI [of _ ls2]) simp
qed

theorem reporter_calls_exact_witness:
  "\<exists>s ls1 ls2. exec sample_step sample_labels loop_init = Some s \<and> sample_labels = ls1 @ Break # ls2 \<and>
     length (reporter s) = length (handled ls2) + 2"
proof -
  obtain s where s: "exec sample_step sample_labels loop_init = Some s" "phase s = Finished"
    by (rule sample_run)
  from reporter_calls_exact [OF s] s(1) show ?thesis by fastforce
qed

text \<open>
  C26: The event loop implements the abstract work pool: the closures completed and the paths
  handled in a run, read as admissions and settlements of hashes, are a run of the pool that
  ends in the abstraction of the loop's state.
\<close>

theorem loop_refines_pool:
  assumes "exec (loop_step E rd hash) ls loop_init = Some s"
  shows "exec pool_step (concat (map (pool_labels hash) ls)) \<lparr>outstanding = {}, settled = {}\<rparr> =
     Some (pool_abs hash s)"
proof -
  have "work_inv hash loop_init" "pool_abs hash loop_init = \<lparr>outstanding = {}, settled = {}\<rparr>"
    by (simp_all add: work_inv_def pool_abs_def owed_def loop_init_def)
  with pool_refinement.exec_simulates [OF assms] show ?thesis by metis
qed

theorem loop_refines_pool_witness:
  "\<exists>s. exec sample_step sample_labels loop_init = Some s \<and>
     exec pool_step (concat (map (pool_labels (\<lambda>p. p)) sample_labels)) \<lparr>outstanding = {}, settled = {}\<rparr> =
       Some (pool_abs (\<lambda>p. p) s)"
proof -
  obtain s where s: "exec sample_step sample_labels loop_init = Some s"
    by (rule sample_run)
  with loop_refines_pool [OF s] show ?thesis by blast
qed

text \<open>
  The task of a connection whose peer closes without a failure sends the event loop
  exactly the events of the bytes on the wire, in order, and returns.
\<close>

theorem handle_io_sends_decoded:
  assumes "memchr_ok E" "sr_live r" "sr_weight r + 1 < n"
  shows "handle_io_run E sr_poll_read w n (handle_io_start r) =
     (map (item_event w) (decode E (sr_stream r)), IoReturned)"
  using sr.handle_io_run_decode [OF assms(1), of "Receiver_new r" n w] assms(2,3)
  by (simp add: handle_io_start_def)

theorem handle_io_sends_decoded_witness:
  "handle_io_run sample_env sr_poll_read () 30 (handle_io_start sample_reader) =
     ([Ok (EventPushStorePath ''/nix/store/a''), Ok (EventStop ())], IoReturned)"
proof -
  have "sr_live sample_reader" "sr_weight sample_reader + 1 < 30"
    by (simp_all add: sample_reader_def sr_live_def sr_weight_def)
  moreover have "decode sample_env (sr_stream sample_reader) = [Ok (PushStorePath ''/nix/store/a''), Ok StopDaemon]"
    by code_simp
  ultimately show ?thesis
    using handle_io_sends_decoded [OF memchr_ok_sample, of sample_reader 30 "()"] by simp
qed

end
