(* ===== verification/Connections.thy ===== *)
theory Connections
  imports Event_Loop_Correct "HOL-Library.Sublist"
begin

text \<open>
  Between the sockets and the event loop: the messages the loop receives are an interleaving of
  what the accepted connections carry, each connection's part in its order. The stop request of
  one connection may overtake the pushes of another.
\<close>

section \<open>Interleavings\<close>

text \<open>\<open>merges xss ys\<close>: the list \<open>ys\<close> is put together from the lists \<open>xss\<close>, each kept in order.\<close>

inductive merges :: "'a list list \<Rightarrow> 'a list \<Rightarrow> bool" where
  merges_Nil: "merges [] []"
| merges_new: "merges xss ys \<Longrightarrow> merges (xss @ [[]]) ys"
| merges_snoc: "merges xss ys \<Longrightarrow> i < length xss \<Longrightarrow> merges (xss[i := xss ! i @ [x]]) (ys @ [x])"

lemma merges_append:
  "merges xss ys \<Longrightarrow> i < length xss \<Longrightarrow> merges (xss[i := xss ! i @ xs]) (ys @ xs)"
proof (induction xs rule: rev_induct)
  case (snoc x xs)
  then have "merges ((xss[i := xss ! i @ xs])[i := (xss[i := xss ! i @ xs]) ! i @ [x]]) ((ys @ xs) @ [x])"
    by (intro merges_snoc) auto
  with snoc.prems(2) show ?case by simp
qed simp

lemma mset_concat_update:
  "i < length xss \<Longrightarrow> mset (concat (xss[i := xss ! i @ xs])) = mset (concat xss) + mset xs"
  by (induction xss arbitrary: i) (auto split: nat.splits)

lemma merges_mset: "merges xss ys \<Longrightarrow> mset ys = mset (concat xss)"
  by (induction rule: merges.induct) (simp_all add: mset_concat_update)

lemma merges_subseq: "merges xss ys \<Longrightarrow> xs \<in> set xss \<Longrightarrow> subseq xs ys"
proof (induction arbitrary: xs rule: merges.induct)
  case (merges_snoc xss ys i x)
  have "subseq (xss ! i @ [x]) (ys @ [x])"
    using merges_snoc by (intro list_emb_append_mono) auto
  moreover have "subseq zs (ys @ [x])" if "zs \<in> set xss" for zs
    using merges_snoc.IH [OF that] by (rule subseq_rev_drop_many)
  ultimately show ?case
    using merges_snoc.prems set_update_subset_insert [of xss i "xss ! i @ [x]"] by auto
qed auto

section \<open>Connections\<close>

text \<open>The connections accepted in a run, and what one of them carries.\<close>

fun accepted_ios :: "('path, 'perr, 'cerr, 'herr, 'r, 'wr) label list \<Rightarrow> ('r \<times> 'wr) list" where
  "accepted_ios [] = []"
| "accepted_ios (Accepted r w # ls) = (r, w) # accepted_ios ls"
| "accepted_ios (l # ls) = accepted_ios ls"

lemma accepted_ios_append [simp]: "accepted_ios (ls @ ms) = accepted_ios ls @ accepted_ios ms"
  by (induction ls rule: accepted_ios.induct) auto

definition wire_events ::
  "('path, 'perr) wire_env \<Rightarrow> ('r \<Rightarrow> bytes) \<Rightarrow> 'r \<times> 'wr \<Rightarrow> ('path, 'perr, 'wr) channel_message list" where
  "wire_events E st = (\<lambda>(r, w). map (item_event w) (decode E (st r)))"

text \<open>What a task has still to send, if its connection neither fails nor stays open.\<close>

fun task_rest ::
  "('path, 'perr) wire_env \<Rightarrow> ('r \<Rightarrow> bytes) \<Rightarrow> 'wr \<Rightarrow> 'r io_task \<Rightarrow> ('path, 'perr, 'wr) channel_message list" where
  "task_rest E st w (IoRunning rx) = (if is_done rx then [] else map (item_event w) (decode E (unread st rx)))"
| "task_rest E st w t = []"

fun task_ok :: "('r \<Rightarrow> bool) \<Rightarrow> 'r io_task \<Rightarrow> bool" where
  "task_ok lv (IoRunning rx) = (receiver_wf rx \<and> lv (rreader rx))"
| "task_ok lv IoReturned = True"
| "task_ok lv IoPanicked = False"

lemma task_start [simp]:
  "task_rest E st w (handle_io_start r) = wire_events E st (r, w)"
  "task_ok lv (handle_io_start r) = lv r"
  by (simp_all add: handle_io_start_def wire_events_def)

text \<open>The steps that neither use a connection nor the channel.\<close>

fun internal :: "('path, 'perr, 'cerr, 'herr, 'r, 'wr) label \<Rightarrow> bool" where
  "internal (Accepted r w) = False"
| "internal (IoTurn i) = False"
| "internal (Received m) = False"
| "internal l = True"

lemma on_closure_channel [simp]:
  "io_tasks (on_closure hash p res s) = io_tasks s" "messages (on_closure hash p res s) = messages s"
  by (cases res; simp)+

lemma internal_step:
  assumes "internal l" "loop_step E rd hash l s = Some t"
  shows "io_tasks t = io_tasks s" "messages t = messages s" "accepted_ios [l] = []" "received [l] = []"
  using assms
  by (cases l; auto simp: on_handled_def on_drained_def on_break_def on_finish_def
      split: if_splits phase.splits)+

text \<open>
  The invariant of a run: the part \<open>sents ! i\<close> of the messages that came from connection \<open>i\<close>,
  followed by what its task has still to send, is what the connection carries.
\<close>

definition conn_inv ::
  "('path, 'perr) wire_env \<Rightarrow> ('r \<Rightarrow> bytes) \<Rightarrow> ('r \<Rightarrow> bool) \<Rightarrow> ('r \<times> 'wr) list \<Rightarrow>
     ('path, 'perr, 'wr) channel_message list list \<Rightarrow> ('path, 'perr, 'wr) channel_message list \<Rightarrow>
     ('path, 'hash, 'perr, 'cerr, 'herr, 'r, 'wr) loop_state \<Rightarrow> bool" where
  "conn_inv E st lv ios sents rcvd s \<longleftrightarrow>
     length sents = length ios \<and> map snd (io_tasks s) = map snd ios \<and> merges sents (rcvd @ messages s) \<and>
     (\<forall>i < length ios. task_ok lv (fst (io_tasks s ! i)) \<and>
        sents ! i @ task_rest E st (snd (ios ! i)) (fst (io_tasks s ! i)) = wire_events E st (ios ! i))"

section \<open>One turn\<close>

context async_read_live
begin

lemma handle_io_turn_rest:
  assumes "memchr_ok E" "task_ok live t" "handle_io_turn E poll_read w t = (ms, t')"
  shows "task_ok live t' \<and> task_rest E stream w t = ms @ task_rest E stream w t'"
proof (cases t)
  case (IoRunning rx)
  show ?thesis
  proof (cases "is_done rx")
    case True
    with assms IoRunning show ?thesis by (auto simp: poll_next_done)
  next
    case False
    obtain out rx' where p: "poll_next E poll_read rx = (out, rx')"
      by (cases "poll_next E poll_read rx")
    have wf: "receiver_wf rx" and lv: "live (rreader rx)"
      using assms(2) IoRunning by auto
    from assms(1) wf False p show ?thesis
    proof (cases rule: poll_next_cases)
      case (item it rx1)
      with lv have post: "decode_step E (unread stream rx) = Some (it, unread stream rx1)"
        "receiver_wf rx1" "live (rreader rx1)"
        by (auto simp: receive_post_def)
      have turn: "handle_io_turn E poll_read w t =
          ([item_event w it], if it = Ok StopDaemon then IoReturned else IoRunning rx')"
        unfolding IoRunning by (rule handle_io_turn_item [OF p [unfolded item(1)]])
      have "task_rest E stream w t = item_event w it # (if final_item it then []
          else map (item_event w) (decode E (unread stream rx1)))"
        using False IoRunning decode_Some [OF post(1)] by simp
      moreover have "unread stream rx' = unread stream rx1" "receiver_wf rx'" "live (rreader rx')"
        using item(2) post by (simp_all add: unread_def unhandled_def receiver_wf_def)
      ultimately show ?thesis
        using turn assms(3) item(2) by (cases "it = Ok StopDaemon") auto
    next
      case no_item
      with lv have "receiver_wf rx'" "live (rreader rx')" "is_done rx' = is_done rx"
        "unread stream rx' = unread stream rx"
        "out = Some (Ready None) \<Longrightarrow> decode_step E (unread stream rx) = None"
        by (auto simp: receive_post_def)
      with no_item(1) p False assms(3) IoRunning show ?thesis
        by (auto simp: decode_None)
    qed
  qed
qed (use assms in auto)

lemma conn_inv_turn:
  assumes "memchr_ok E" "conn_inv E stream live ios sents rcvd s" "i < length (io_tasks s)"
  shows "\<exists>sents'. conn_inv E stream live ios sents' rcvd (io_turn E poll_read i s)"
proof -
  obtain t w where tw: "io_tasks s ! i = (t, w)"
    by fastforce
  obtain ms t' where turn: "handle_io_turn E poll_read w t = (ms, t')"
    by fastforce
  have i: "i < length ios" "length (io_tasks s) = length ios" "snd (ios ! i) = w"
    using assms(2,3) tw unfolding conn_inv_def by (metis length_map nth_map snd_conv)+
  have s': "io_turn E poll_read i s = s\<lparr>io_tasks := (io_tasks s)[i := (t', w)], messages := messages s @ ms\<rparr>"
    by (simp add: io_turn_def tw turn)
  have "task_ok live t" and parts: "sents ! i @ task_rest E stream w t = wire_events E stream (ios ! i)"
    using assms(2) i tw by (auto simp: conn_inv_def)
  then have t': "task_ok live t'" "task_rest E stream w t = ms @ task_rest E stream w t'"
    using handle_io_turn_rest [OF assms(1) _ turn] by auto
  have "merges (sents[i := sents ! i @ ms]) ((rcvd @ messages s) @ ms)"
    using assms(2) i by (intro merges_append) (auto simp: conn_inv_def)
  moreover have "map snd ((io_tasks s)[i := (t', w)]) = map snd (io_tasks s)"
    using tw by (metis list_update_id map_update snd_conv)
  ultimately have "conn_inv E stream live ios (sents[i := sents ! i @ ms]) rcvd (io_turn E poll_read i s)"
    using assms(2) i t' parts unfolding s' conn_inv_def by (auto simp: nth_list_update)
  then show ?thesis ..
qed

lemma conn_inv_accept:
  assumes "conn_inv E stream live ios sents rcvd s" "live r"
  shows "conn_inv E stream live (ios @ [(r, w)]) (sents @ [[]]) rcvd (on_io r w s)"
proof -
  have "length (io_tasks s) = length ios"
    using assms(1) unfolding conn_inv_def by (metis length_map)
  with assms show ?thesis
    by (auto simp: conn_inv_def on_io_def nth_append less_Suc_eq intro: merges_new)
qed

lemma conn_inv_run:
  assumes E: "memchr_ok E"
  shows "exec (loop_step E poll_read hash) ls loop_init = Some s \<Longrightarrow>
    \<forall>(r, w) \<in> set (accepted_ios ls). live r \<Longrightarrow>
    \<exists>sents. conn_inv E stream live (accepted_ios ls) sents (received ls) s"
proof (induction rule: exec_snoc_induct)
  case start
  show ?case
    by (intro exI [of _ "[]"]) (simp add: conn_inv_def loop_init_def merges_Nil)
next
  case (step ls l u v)
  then obtain sents where inv: "conn_inv E stream live (accepted_ios ls) sents (received ls) u" by auto
  consider (accept) r w where "l = Accepted r w" | (turn) i where "l = IoTurn i"
    | (receive) m where "l = Received m" | (other) "internal l"
    by (cases l) auto
  then show ?case
  proof cases
    case accept
    with step.hyps step.prems conn_inv_accept [OF inv] show ?thesis
      by (auto split: if_splits)
  next
    case turn
    with step.hyps conn_inv_turn [OF E inv] show ?thesis
      by (auto split: if_splits)
  next
    case receive
    with step.hyps obtain ms where "messages u = m # ms" "v = on_message m (u\<lparr>messages := ms\<rparr>)"
      by (auto split: if_splits list.splits)
    with inv receive show ?thesis
      by (intro exI [of _ sents]) (simp add: conn_inv_def)
  next
    case other
    with internal_step [OF other step.hyps(2)] inv show ?thesis
      by (intro exI [of _ sents]) (simp add: conn_inv_def)
  qed
qed

end

section \<open>Turns in a row\<close>

lemma io_turns:
  "phase s \<noteq> Finished \<Longrightarrow> i < length (io_tasks s) \<Longrightarrow> io_tasks s ! i = (t, w) \<Longrightarrow>
   handle_io_run E rd w n t = (ms, t') \<Longrightarrow>
   exec (loop_step E rd hash) (replicate n (IoTurn i)) s =
     Some (s\<lparr>io_tasks := (io_tasks s)[i := (t', w)], messages := messages s @ ms\<rparr>)"
proof (induction n arbitrary: s t ms)
  case 0
  then have "(io_tasks s)[i := (t, w)] = io_tasks s"
    by (metis list_update_id)
  with 0 show ?case by simp
next
  case (Suc n)
  obtain ms1 t1 ms2 where run: "handle_io_turn E rd w t = (ms1, t1)" "handle_io_run E rd w n t1 = (ms2, t')"
    "ms = ms1 @ ms2"
    using Suc.prems(4) by (auto split: prod.splits)
  let ?u = "s\<lparr>io_tasks := (io_tasks s)[i := (t1, w)], messages := messages s @ ms1\<rparr>"
  have "io_turn E rd i s = ?u"
    using Suc.prems(3) run(1) by (simp add: io_turn_def)
  moreover have "exec (loop_step E rd hash) (replicate n (IoTurn i)) ?u =
      Some (?u\<lparr>io_tasks := (io_tasks ?u)[i := (t', w)], messages := messages ?u @ ms2\<rparr>)"
    using Suc.prems(1,2) run(2) by (intro Suc.IH) auto
  ultimately show ?case
    using Suc.prems(1,2) run(3) by simp
qed

lemma accept_two:
  "exec (loop_step E rd hash) [Accepted r1 w1, Accepted r2 w2] loop_init = Some (on_io r2 w2 (on_io r1 w1 loop_init))"
  by (simp add: loop_breaks_def loop_init_def on_io_def)

lemma stop_turns:
  assumes "memchr_ok E" "sr_live r2" "decode E (sr_stream r2) = [Ok StopDaemon]"
  shows "exec (loop_step E sr_poll_read hash) (replicate (sr_weight r2 + 2) (IoTurn 1))
      (on_io r2 w2 (on_io r1 w1 loop_init)) =
    Some ((on_io r2 w2 (on_io r1 w1 loop_init))\<lparr>io_tasks := [(handle_io_start r1, w1), (IoReturned, w2)],
      messages := [Ok (EventStop w2)]\<rparr>)"
proof -
  have "handle_io_run E sr_poll_read w2 (sr_weight r2 + 2) (handle_io_start r2) = ([Ok (EventStop w2)], IoReturned)"
    using handle_io_sends_decoded [OF assms(1,2), of "sr_weight r2 + 2" w2] assms(3) by simp
  then show ?thesis
    by (subst io_turns) (auto simp: on_io_def loop_init_def)
qed

section \<open>Properties\<close>

text \<open>
  C10: No event is invented, lost, duplicated or taken out of the order of its connection: the
  messages received and those still in the channel are an interleaving of prefixes of what the
  connections carry, one prefix per accepted connection, and a connection whose task has
  returned is in it with everything it carries. No connection task panics. This holds for
  every run in which the clients close their connections without a failure.
\<close>

theorem events_interleave_connections:
  assumes "memchr_ok E" "exec (loop_step E sr_poll_read hash) ls loop_init = Some s"
    and "\<forall>(r, w) \<in> set (accepted_ios ls). sr_live r"
  shows "\<exists>sents. length sents = length (accepted_ios ls) \<and> merges sents (received ls @ messages s) \<and>
    (\<forall>i < length (accepted_ios ls).
       prefix (sents ! i) (wire_events E sr_stream (accepted_ios ls ! i)) \<and>
       (fst (io_tasks s ! i) = IoReturned \<longrightarrow> sents ! i = wire_events E sr_stream (accepted_ios ls ! i)) \<and>
       fst (io_tasks s ! i) \<noteq> IoPanicked)"
proof -
  obtain sents where inv: "conn_inv E sr_stream sr_live (accepted_ios ls) sents (received ls) s"
    using sr.conn_inv_run [OF assms] by blast
  have "prefix (sents ! i) (wire_events E sr_stream (accepted_ios ls ! i)) \<and>
      (fst (io_tasks s ! i) = IoReturned \<longrightarrow> sents ! i = wire_events E sr_stream (accepted_ios ls ! i)) \<and>
      fst (io_tasks s ! i) \<noteq> IoPanicked" if "i < length (accepted_ios ls)" for i
    using inv that unfolding conn_inv_def prefix_def by (metis append_Nil2 task_ok.simps(3) task_rest.simps(2))
  with inv show ?thesis
    by (intro exI [of _ sents]) (simp add: conn_inv_def)
qed

theorem events_interleave_connections_witness:
  "\<exists>s sents. exec sample_step sample_labels loop_init = Some s \<and> length sents = 1 \<and>
     merges sents (received sample_labels @ messages s) \<and>
     prefix (sents ! 0) (wire_events sample_env sr_stream (sample_reader, ()))"
proof -
  obtain s where s: "exec sample_step sample_labels loop_init = Some s"
    by (rule sample_run)
  have ios: "accepted_ios sample_labels = [(sample_reader, ())]"
    by (simp add: sample_labels_def)
  then have "\<forall>(r, w) \<in> set (accepted_ios sample_labels). sr_live r"
    by (simp add: sample_reader_def sr_live_def)
  from events_interleave_connections [OF memchr_ok_sample s this] s show ?thesis
    unfolding ios by auto
qed

text \<open>
  C25: A stop request can overtake a push. Whatever an earlier connection carries, there is a
  run in which the daemon accepts it, accepts the connection of a later stop request, and
  finishes with an empty report before the task of the first connection made its first turn:
  the \<open>push\<close> subcommand, which ends as soon as its bytes are in the socket, is no guarantee
  that the paths are served by a daemon that is stopped afterwards.
\<close>

theorem stop_overtakes_push:
  assumes "memchr_ok E" "sr_live r2" "decode E (sr_stream r2) = [Ok StopDaemon]"
  shows "\<exists>s. exec (loop_step E sr_poll_read hash)
      ([Accepted r1 w1, Accepted r2 w2] @ replicate (sr_weight r2 + 2) (IoTurn 1) @
       [Received (Ok (EventStop w2)), Break, Finish]) loop_init = Some s \<and>
    phase s = Finished \<and> report s = action_report_default \<and> io_tasks s ! 0 = (handle_io_start r1, w1)"
  by (simp only: exec_append accept_two stop_turns [OF assms] option.case)
    (simp add: on_io_def loop_init_def loop_breaks_def on_break_def on_finish_def)

definition stop_reader :: script_reader where
  "stop_reader = \<lparr>r_script = [Chunk [0]], r_closed = True\<rparr>"

theorem stop_overtakes_push_witness:
  "\<exists>s. exec sample_step
      ([Accepted sample_reader (), Accepted stop_reader ()] @ replicate (sr_weight stop_reader + 2) (IoTurn 1) @
       [Received (Ok (EventStop ())), Break, Finish]) loop_init = Some s \<and>
    phase s = Finished \<and> report s = action_report_default \<and> io_tasks s ! 0 = (handle_io_start sample_reader, ()) \<and>
    Ok (EventPushStorePath ''/nix/store/a'') \<in> set (wire_events sample_env sr_stream (sample_reader, ()))"
proof -
  have "sr_live stop_reader" "decode sample_env (sr_stream stop_reader) = [Ok StopDaemon]"
    by (simp_all add: stop_reader_def sr_live_def sr_stream_def decode_stop [unfolded STOP_SENTINEL_def])
  moreover have "decode sample_env (sr_stream sample_reader) = [Ok (PushStorePath ''/nix/store/a''), Ok StopDaemon]"
    by code_simp
  ultimately show ?thesis
    using stop_overtakes_push [OF memchr_ok_sample, of stop_reader "\<lambda>p. p" sample_reader "()" "()"]
    by (auto simp: wire_events_def)
qed

end
