(* ===== verification/Reporter_Correct.thy ===== *)
theory Reporter_Correct
  imports Reporter Event_Loop_Correct
begin

text \<open>
  The text of the reporter is a function of the run of the event loop, and the sizes it prints
  are accurate.
\<close>

section \<open>Rounding\<close>

lemma round_half_even_error:
  assumes "0 < b"
  shows "2 * \<bar>a - b * round_half_even a b\<bar> \<le> b"
proof -
  have r: "0 \<le> a mod b" "a mod b < b"
    using assms by simp_all
  have "a - b * (a div b) = a mod b" "a - b * (a div b + 1) = a mod b - b"
    by (simp_all add: minus_mult_div_eq_mod algebra_simps)
  with r show ?thesis
    by (auto simp: round_half_even_def Let_def)
qed

lemma abs_bound_both:
  fixes x y b c :: int
  assumes "c * \<bar>x - y\<bar> \<le> b" "0 \<le> c"
  shows "c * (x - y) \<le> b" "c * (y - x) \<le> b"
proof -
  have "c * (x - y) \<le> c * \<bar>x - y\<bar>" "c * (y - x) \<le> c * \<bar>x - y\<bar>"
    using assms(2) by (intro mult_left_mono; simp)+
  with assms(1) show "c * (x - y) \<le> b" "c * (y - x) \<le> b"
    by simp_all
qed

text \<open>Two errors, of the rounding to a float and of the rounding to tenths, add up.\<close>

lemma abs_errors_add:
  fixes n v x b :: int
  assumes "2 ^ 53 * \<bar>n - v\<bar> \<le> n" "2 * \<bar>10 * v - x\<bar> \<le> b"
  shows "2 ^ 54 * \<bar>10 * n - x\<bar> \<le> 2 ^ 53 * b + 20 * n"
proof -
  have "2 ^ 53 * (n - v) \<le> n" "2 ^ 53 * (v - n) \<le> n" "2 * (10 * v - x) \<le> b" "2 * (x - 10 * v) \<le> b"
    using abs_bound_both [OF assms(1)] abs_bound_both [OF assms(2)] by simp_all
  then show ?thesis
    by (cases "10 * n \<ge> x") simp_all
qed

lemma f64_shift_bounds:
  assumes "0 \<le> n"
  shows "n < 2 ^ 53 * 2 ^ f64_shift n" "f64_shift n \<noteq> 0 \<Longrightarrow> 2 ^ 52 * 2 ^ f64_shift n \<le> n"
  using assms
proof (induction n rule: f64_shift.induct)
  case (1 n)
  {
    case 1
    show ?case
    proof (cases "n < 2 ^ 53")
      case False
      have "n div 2 < 2 ^ 53 * 2 ^ f64_shift (n div 2)"
        using "1.IH"(1) False 1 by simp
      with False show ?thesis
        by (simp add: f64_shift.simps [of n])
    qed (simp add: f64_shift.simps [of n])
  next
    case 2
    have big: "\<not> n < 2 ^ 53"
      using 2 by (auto simp: f64_shift.simps [of n])
    show ?case
    proof (cases "f64_shift (n div 2) = 0")
      case True
      with big show ?thesis
        by (simp add: f64_shift.simps [of n])
    next
      case False
      have "2 ^ 52 * 2 ^ f64_shift (n div 2) \<le> n div 2"
        using "1.IH"(2) big False 2 by simp
      with big show ?thesis
        by (simp add: f64_shift.simps [of n])
    qed
  }
qed

lemma u64_as_f64_error:
  assumes "0 \<le> n"
  shows "2 ^ 53 * \<bar>n - u64_as_f64 n\<bar> \<le> n"
proof (cases "f64_shift n = 0")
  case True
  then show ?thesis
    using assms by (simp add: u64_as_f64_def round_half_even_def)
next
  case False
  have "2 * \<bar>n - u64_as_f64 n\<bar> \<le> 2 ^ f64_shift n"
    using round_half_even_error [of "2 ^ f64_shift n" n] by (simp add: u64_as_f64_def mult.commute)
  with f64_shift_bounds(2) [OF assms False] show ?thesis
    by simp
qed

lemma unit_loop_bounds:
  assumes "1024 ^ k \<le> v \<or> k = 0" "k \<le> 5"
  shows "unit_loop v k \<le> 5 \<and> (1024 ^ unit_loop v k \<le> v \<or> unit_loop v k = 0) \<and>
    (unit_loop v k < 5 \<longrightarrow> v < 1024 * 1024 ^ unit_loop v k)"
  using assms
proof (induction v k rule: unit_loop.induct)
  case (1 v k)
  show ?case
  proof (cases "k + 1 < length UNITS \<and> 1024 * 1024 ^ k \<le> v")
    case True
    have "unit_loop v k = unit_loop v (k + 1)"
      using True by (subst unit_loop.simps) simp
    with "1.IH" [OF True] True "1.prems" show ?thesis
      by (simp add: UNITS_def)
  next
    case False
    have "unit_loop v k = k"
      by (subst unit_loop.simps) (simp only: False if_False)
    with False "1.prems" show ?thesis
      by (auto simp: UNITS_def not_le)
  qed
qed

lemma tenths_bounds:
  assumes "1024 ^ k \<le> v"
  shows "2 * \<bar>10 * v - tenths v k * 1024 ^ k\<bar> \<le> 1024 ^ k" "10 \<le> tenths v k"
    "v < 1024 * 1024 ^ k \<Longrightarrow> tenths v k \<le> 10240"
proof -
  define b :: int where "b = 1024 ^ k"
  define x where "x = tenths v k * b"
  have b: "0 < b" "b \<le> v"
    using assms by (simp_all add: b_def)
  have err: "2 * \<bar>10 * v - x\<bar> \<le> b"
    using round_half_even_error [OF b(1), of "10 * v"] by (simp add: x_def tenths_def b_def mult.commute)
  then show "2 * \<bar>10 * v - tenths v k * 1024 ^ k\<bar> \<le> 1024 ^ k"
    by (simp add: b_def x_def)
  have near: "2 * (10 * v - x) \<le> b" "2 * (x - 10 * v) \<le> b"
    using abs_bound_both [OF err] by simp_all
  show "10 \<le> tenths v k"
  proof (rule ccontr)
    assume "\<not> 10 \<le> tenths v k"
    then have "x \<le> 9 * b"
      unfolding x_def using b by (intro mult_right_mono) auto
    with near b show False by simp
  qed
  show "tenths v k \<le> 10240" if "v < 1024 * 1024 ^ k"
  proof (rule ccontr)
    assume "\<not> tenths v k \<le> 10240"
    then have "10241 * b \<le> x"
      unfolding x_def using b by (intro mult_right_mono) auto
    with near that b show False by (simp add: b_def [symmetric])
  qed
qed

text \<open>The unit is chosen on the rounded number, but all thresholds lie where nothing is rounded.\<close>

lemma one_less_power_1024: "k \<noteq> 0 \<Longrightarrow> (1024 :: int) \<le> 1024 ^ k"
  using power_increasing [of 1 k "1024 :: int"] by simp

lemma rounding_small:
  assumes "2 ^ 53 * \<bar>n - v\<bar> \<le> (n :: int)" "n < 2 ^ 53"
  shows "v = n"
proof (rule ccontr)
  assume "v \<noteq> n"
  then have "(1 :: int) \<le> \<bar>n - v\<bar>" by simp
  then have "2 ^ 53 * 1 \<le> 2 ^ 53 * \<bar>n - v\<bar>" by (intro mult_left_mono) simp_all
  with assms show False by simp
qed

lemma rounding_large:
  assumes "2 ^ 53 * \<bar>n - v\<bar> \<le> (n :: int)" "2 ^ 53 \<le> n"
  shows "2 ^ 52 \<le> v"
  using abs_bound_both [OF assms(1)] assms(2) by simp

lemma unit_exact:
  assumes "2 ^ 53 * \<bar>n - v\<bar> \<le> (n :: int)" "k \<le> (5 :: nat)" "k = 0 \<or> 1024 ^ k \<le> v" "k = 5 \<or> v < 1024 ^ Suc k"
  shows "(k = 0 \<or> 1024 ^ k \<le> n) \<and> (k = 5 \<or> n < 1024 ^ Suc k)"
proof (cases "n < 2 ^ 53")
  case True
  with rounding_small [OF assms(1)] assms(3, 4) show ?thesis by simp
next
  case False
  have "(1024 :: int) ^ k \<le> 1024 ^ 5"
    using assms(2) by (intro power_increasing) simp_all
  moreover have "k = 5"
  proof (rule ccontr)
    assume "k \<noteq> 5"
    then have "(1024 :: int) ^ Suc k \<le> 1024 ^ 5"
      using assms(2) by (intro power_increasing) simp_all
    with \<open>k \<noteq> 5\<close> rounding_large [OF assms(1)] assms(4) False show False by simp
  qed
  ultimately show ?thesis
    using False by simp
qed

section \<open>The text of a run\<close>

text \<open>A writer whose \<open>write_all\<close> appends what it is given and whose \<open>flush\<close> changes nothing.\<close>

definition takes_all :: "'w writer_ops \<Rightarrow> ('w \<Rightarrow> bytes) \<Rightarrow> bool" where
  "takes_all W out \<longleftrightarrow>
     (\<forall>bs w. out (snd (write_all W bs w)) = out w @ bs) \<and> (\<forall>w. out (snd (flush W w)) = out w)"

text \<open>What the user is to read, as a function of the outcomes of the drain and the final report.\<close>

definition left_line :: "u32 \<Rightarrow> string" where
  "left_line n =
     (if n = 0 then []
      else if n = 1 then ''There is still 1 store path left to handle'' @ [CHR 0x0A]
      else ''There are still '' @ show_nat (unat n) @ '' store paths left to handle'' @ [CHR 0x0A])"

fun outcome_line :: "('path \<Rightarrow> string) \<Rightarrow> 'path \<times> 'herr handle_result \<Rightarrow> string" where
  "outcome_line sp (p, Inr (Some n)) = ''Pushed '' @ sp p @ [CHR 0x0A]"
| "outcome_line sp (p, Inr None) = ''Skipped '' @ sp p @ [CHR 0x0A]"
| "outcome_line sp (p, Inl e) = ''Failed handling '' @ sp p @ [CHR 0x0A]"

definition stop_report_text ::
  "('path \<Rightarrow> string) \<Rightarrow> ('cerr \<Rightarrow> error_chain) \<Rightarrow> ('herr \<Rightarrow> error_chain) \<Rightarrow>
     ('path \<times> 'herr handle_result) list \<Rightarrow> ('path, 'cerr, 'herr) action_report \<Rightarrow> string" where
  "stop_report_text sp ce he outcomes rep =
     (let n = of_nat (length outcomes) in
      left_line n @ concat (map (outcome_line sp) outcomes) @ final_report_msg sp ce he (n \<noteq> 0) rep)"

lemma say_out:
  assumes "takes_all W out"
  shows "out (spr_writer (say W msg r)) = out (spr_writer r) @ as_bytes msg"
    "reported_paths_left_to_handle (say W msg r) = reported_paths_left_to_handle r"
  using assms by (simp_all add: say_def takes_all_def)

lemma outcome_out:
  assumes "takes_all W out"
  shows "out (spr_writer (reporter_call W sp ce he (report_result p res) r)) =
      out (spr_writer r) @ as_bytes (outcome_line sp (p, res))"
    "reported_paths_left_to_handle (reporter_call W sp ce he (report_result p res) r) =
      reported_paths_left_to_handle r"
proof -
  consider n where "res = Inr (Some n)" | "res = Inr None" | e where "res = Inl e"
    by (metis sum.exhaust option.exhaust)
  then show "out (spr_writer (reporter_call W sp ce he (report_result p res) r)) =
      out (spr_writer r) @ as_bytes (outcome_line sp (p, res))"
    "reported_paths_left_to_handle (reporter_call W sp ce he (report_result p res) r) =
      reported_paths_left_to_handle r"
    by (cases; simp add: report_path_pushed_def report_path_skipped_def report_path_handling_error_def
        say_out [OF assms])+
qed

lemma outcomes_out:
  assumes "takes_all W out"
  shows "out (spr_writer (fold (reporter_call W sp ce he) (map (\<lambda>(p, res). report_result p res) hs) r)) =
      out (spr_writer r) @ as_bytes (concat (map (outcome_line sp) hs)) \<and>
    reported_paths_left_to_handle
      (fold (reporter_call W sp ce he) (map (\<lambda>(p, res). report_result p res) hs) r) =
      reported_paths_left_to_handle r"
proof (induction hs arbitrary: r)
  case Nil
  show ?case by (simp add: as_bytes_def)
next
  case (Cons h hs)
  then show ?case by (cases h) (simp add: outcome_out [OF assms])
qed

lemma paths_left_out:
  assumes "takes_all W out"
  shows "out (spr_writer (report_paths_left_to_handle W n (reporter_new w))) = out w @ as_bytes (left_line n)"
    "reported_paths_left_to_handle (report_paths_left_to_handle W n (reporter_new w)) \<longleftrightarrow> n \<noteq> 0"
proof -
  have one: "show_nat (unat (1 :: u32)) = ''1''"
    by code_simp
  show "out (spr_writer (report_paths_left_to_handle W n (reporter_new w))) = out w @ as_bytes (left_line n)"
    using say_out(1) [OF assms] one
    by (simp add: report_paths_left_to_handle_def left_line_def reporter_new_def as_bytes_def)
  show "reported_paths_left_to_handle (report_paths_left_to_handle W n (reporter_new w)) \<longleftrightarrow> n \<noteq> 0"
    by (simp add: report_paths_left_to_handle_def reporter_new_def Let_def)
qed

lemma final_report_out:
  assumes "takes_all W out"
  shows "out (spr_writer (report_final_report W sp ce he rep r)) =
    out (spr_writer r) @ as_bytes (final_report_msg sp ce he (reported_paths_left_to_handle r) rep)"
  using say_out(1) [OF assms] assms by (simp add: report_final_report_def Let_def takes_all_def)

lemma drain_text:
  assumes "exec (loop_step E rd hash) ls loop_init = Some s" "phase s = Finished" "takes_all W out"
  shows "\<exists>ls1 ls2. ls = ls1 @ Break # ls2 \<and>
     out (spr_writer (fold (reporter_call W sp ce he) (reporter s) (reporter_new w))) =
       out w @ as_bytes (stop_report_text sp ce he (handled ls2) (report s))"
proof -
  obtain ls1 ls2 where r: "ls = ls1 @ Break # ls2"
    "reporter s = ReportPathsLeftToHandle (of_nat (length (handled ls2))) #
       map (\<lambda>(p, res). report_result p res) (handled ls2) @ [ReportFinalReport (report s)]"
    using reporter_calls_exact [OF assms(1,2)] by blast
  then show ?thesis
    by (intro exI [of _ ls1] exI [of _ ls2])
      (simp add: paths_left_out [OF assms(3)] final_report_out [OF assms(3)] outcomes_out [OF assms(3)]
        stop_report_text_def Let_def)
qed

definition list_writer :: "bytes writer_ops" where
  "list_writer = \<lparr>write_all = (\<lambda>bs w. (Ok (), w @ bs)), flush = (\<lambda>w. (Ok (), w))\<rparr>"

section \<open>Properties\<close>

text \<open>
  C39: A size is printed with the largest of the six units that it reaches: exactly below 1024
  bytes, and from 1024 bytes on as a number of tenths \<open>t\<close> of the unit that is at least 1.0 and,
  below the largest unit, at most 1024.0, and that differs from the true number of bytes by at
  most half a tenth of the unit and the rounding of a 64-bit number to 53 significant bits.
\<close>

theorem human_readable_accurate:
  "\<exists>k t. k < length UNITS \<and>
     human_readable_byte_size n =
       (if k = 0 then show_nat (unat n) @ '' B''
        else show_nat (nat (t div 10)) @ ''.'' @ show_nat (nat (t mod 10)) @ '' '' @ UNITS ! k) \<and>
     (k = 0 \<longleftrightarrow> uint n < 1024) \<and> (k = 0 \<or> 1024 ^ k \<le> uint n) \<and> (k = 5 \<or> uint n < 1024 ^ Suc k) \<and>
     (k = 0 \<or> 10 \<le> t \<and> (k = 5 \<or> t \<le> 10240) \<and>
        2 ^ 54 * \<bar>10 * uint n - t * 1024 ^ k\<bar> \<le> 2 ^ 53 * 1024 ^ k + 20 * uint n)"
proof -
  define v where "v = u64_as_f64 (uint n)"
  define k where "k = unit_loop v 0"
  have err: "2 ^ 53 * \<bar>uint n - v\<bar> \<le> uint n"
    unfolding v_def by (rule u64_as_f64_error) simp
  have k: "k \<le> 5" "k = 0 \<or> 1024 ^ k \<le> v" "k = 5 \<or> v < 1024 ^ Suc k"
    using unit_loop_bounds [of 0 v] by (auto simp: k_def)
  have msg: "human_readable_byte_size n =
      (if k = 0 then show_nat (unat n) @ '' B''
       else show_nat (nat (tenths v k div 10)) @ ''.'' @ show_nat (nat (tenths v k mod 10)) @ '' '' @ UNITS ! k)"
    by (simp add: human_readable_byte_size_def k_def v_def Let_def UNITS_def)
  have lower: "k = 0 \<or> 1024 ^ k \<le> uint n" and upper: "k = 5 \<or> uint n < 1024 ^ Suc k"
    using unit_exact [OF err k] by blast+
  have zero: "k = 0 \<longleftrightarrow> uint n < 1024"
    using lower upper one_less_power_1024 [of k] by (cases "k = 0") force+
  have "10 \<le> tenths v k \<and> (k = 5 \<or> tenths v k \<le> 10240) \<and>
      2 ^ 54 * \<bar>10 * uint n - tenths v k * 1024 ^ k\<bar> \<le> 2 ^ 53 * 1024 ^ k + 20 * uint n" if "k \<noteq> 0"
  proof -
    from that k have "1024 ^ k \<le> v" "k = 5 \<or> v < 1024 * 1024 ^ k" by auto
    with tenths_bounds [of k v] abs_errors_add [OF err] show ?thesis by blast
  qed
  with k(1) msg zero lower upper show ?thesis
    by (intro exI [of _ k] exI [of _ "tenths v k"] conjI) (auto simp: UNITS_def)
qed

end
