(* ===== verification/Commands_Correct.thy ===== *)
theory Commands_Correct
  imports Commands Reporter_Correct
begin

text \<open>
  The subcommands: on a healthy socket a client ends with success and its messages are on the
  wire; the readiness file tells the parent exactly whether the daemon runs; the list of
  upstream caches is read back as it was written; accepting survives failures.
\<close>

section \<open>Healthy writers\<close>

text \<open>
  Progress of a writer: a \<open>healthy\<close> one never fails and never accepts zero bytes, and
  \<open>patience\<close> bounds how often it will still answer \<open>Pending\<close>.
\<close>

locale async_write_live = async_write +
  fixes patience :: "'a \<Rightarrow> nat"
    and healthy :: "'a \<Rightarrow> bool"
  assumes healthy_write:
      "healthy w \<Longrightarrow> poll_write buf w = (a, w') \<Longrightarrow> buf \<noteq> [] \<Longrightarrow>
         healthy w' \<and> patience w' \<le> patience w \<and>
         (a = Pending \<and> patience w' < patience w \<or> (\<exists>n. a = Ready (Ok n) \<and> n \<noteq> 0))"
    and healthy_flush:
      "healthy w \<Longrightarrow> poll_flush w = (b, w') \<Longrightarrow>
         healthy w' \<and> (b = Ready (Ok ()) \<or> b = Pending \<and> patience w' < patience w)"
    and healthy_close:
      "healthy w \<Longrightarrow> poll_close w = (b, w') \<Longrightarrow>
         healthy w' \<and> (b = Ready (Ok ()) \<or> b = Pending \<and> patience w' < patience w)"
begin

lemma drain_loop_live:
  "drain_loop poll_write buf k w = (a, k', w') \<Longrightarrow> healthy w \<Longrightarrow>
     healthy w' \<and> patience w' \<le> patience w \<and>
     (a = Ready (Ok ()) \<or> a = Pending \<and> patience w' < patience w)"
proof (induction pw \<equiv> poll_write buf k w rule: drain_loop.induct)
  case (1 buf k w)
  show ?case
  proof (cases "k < length buf")
    case False
    with "1.prems" show ?thesis by (auto simp: drain_loop.simps [of poll_write])
  next
    case True
    obtain ans w1 where step: "poll_write (drop k buf) w = (ans, w1)"
      by (cases "poll_write (drop k buf) w")
    have w1: "healthy w1" "patience w1 \<le> patience w"
      "ans = Pending \<and> patience w1 < patience w \<or> (\<exists>n. ans = Ready (Ok n) \<and> n \<noteq> 0)"
      using healthy_write [OF "1.prems"(2) step] True by auto
    show ?thesis
    proof (cases "ans = Pending")
      case pending: True
      with True step "1.prems"(1) w1 show ?thesis
        by (auto simp: drain_loop.simps [of poll_write buf k])
    next
      case False
      with w1(3) obtain n where n: "ans = Ready (Ok n)" "n \<noteq> 0" by blast
      have "drain_loop poll_write buf (k + n) w1 = (a, k', w')"
        using True step n "1.prems"(1) by (auto simp: drain_loop.simps [of poll_write buf k])
      from "1.hyps" [OF True step [symmetric] n(1) refl n(2) this w1(1)] w1(2) show ?thesis
        by auto
    qed
  qed
qed

lemma drain_buf_live:
  assumes "drain_buf poll_write s = (a, s')" "healthy (swriter s)"
  shows "healthy (swriter s') \<and> patience (swriter s') \<le> patience (swriter s) \<and>
     (a = Ready (Ok ()) \<or> a = Pending \<and> patience (swriter s') < patience (swriter s))"
proof -
  obtain b k w where l: "drain_loop poll_write (sbuf s) (num_written s) (swriter s) = (b, k, w)"
    by (metis prod_cases3)
  then show ?thesis
    using drain_loop_live [OF l assms(2)] drain_buf_eq [OF l] assms(1) by (auto split: if_splits)
qed

lemma flush_close_live:
  assumes "healthy (swriter s)"
    and "sender_poll_flush poll_write poll_flush s = (a, s') \<or>
         sender_poll_close poll_write poll_close s = (a, s')"
  shows "healthy (swriter s') \<and>
     (a = Ready (Ok ()) \<or> a = Pending \<and> patience (swriter s') < patience (swriter s))"
proof -
  obtain b t where d: "drain_buf poll_write s = (b, t)"
    by (cases "drain_buf poll_write s")
  note t = drain_buf_live [OF d assms(1)]
  show ?thesis
  proof (cases "b = Ready (Ok ())")
    case True
    have t': "healthy (swriter t)" "patience (swriter t) \<le> patience (swriter s)"
      using t by auto
    have "poll_flush (swriter t) = (a, swriter s') \<or> poll_close (swriter t) = (a, swriter s')"
      using assms(2) True unfolding sender_poll_flush_eq [OF d] sender_poll_close_eq [OF d] by auto
    then have "healthy (swriter s') \<and>
        (a = Ready (Ok ()) \<or> a = Pending \<and> patience (swriter s') < patience (swriter t))"
      using healthy_flush [OF t'(1)] healthy_close [OF t'(1)] by blast
    with t'(2) show ?thesis by auto
  next
    case False
    with t assms(2) show ?thesis
      unfolding sender_poll_flush_eq [OF d] sender_poll_close_eq [OF d] by auto
  qed
qed

text \<open>Waiting for a flush or a close ends, and the writer has then accepted everything.\<close>

lemma await_delivers:
  assumes "poll \<in> {sender_poll_flush poll_write poll_flush, sender_poll_close poll_write poll_close}"
  shows "sender_wf s \<Longrightarrow> healthy (swriter s) \<Longrightarrow> patience (swriter s) < n \<Longrightarrow>
     \<exists>s'. await n poll s = Some (Ok (), s') \<and> accepted (swriter s') = handed_over accepted s"
proof (induction n arbitrary: s)
  case 0
  then show ?case by simp
next
  case (Suc n)
  obtain a t where p: "poll s = (a, t)"
    by (cases "poll s")
  then have d: "sender_poll_flush poll_write poll_flush s = (a, t) \<or>
      sender_poll_close poll_write poll_close s = (a, t)"
    using assms by auto
  note t = flush_close_handed_over [OF Suc.prems(1) d] flush_close_live [OF Suc.prems(2) d]
  show ?case
  proof (cases "a = Ready (Ok ())")
    case True
    with t p show ?thesis by (auto simp: handed_over_def)
  next
    case False
    with t have "a = Pending" "sender_wf t" "healthy (swriter t)" "patience (swriter t) < n"
      "handed_over accepted t = handed_over accepted s"
      using Suc.prems(3) by auto
    with Suc.IH [of t] p show ?thesis by simp
  qed
qed

end

definition sw_healthy :: "script_writer \<Rightarrow> bool" where
  "sw_healthy w \<longleftrightarrow>
     list_all (\<lambda>e. case e of Accept k \<Rightarrow> k \<noteq> 0 | WStall \<Rightarrow> True | WFail _ \<Rightarrow> False) (w_script w) \<and>
     list_all (\<lambda>a. case a of Pending \<Rightarrow> True | Ready r \<Rightarrow> r = Ok ()) (w_sync w)"

definition sw_patience :: "script_writer \<Rightarrow> nat" where
  "sw_patience w = length (w_script w) + length (w_sync w)"

interpretation swl: async_write_live sw_poll_write sw_poll_flush sw_poll_close w_accepted sw_patience sw_healthy
  by unfold_locales
    (auto simp: sw_healthy_def sw_patience_def min_def split: list.splits write_event.splits if_splits
      poll.splits)

section \<open>The clients\<close>

lemma feed_eq: "feed E (Suc n) m s = Some (Ok (), s\<lparr>sbuf := sbuf s @ encode_message E m\<rparr>)"
  by (simp add: feed_def sender_poll_ready_def start_send_spec)

lemma feed_all_eq:
  "feed_all E (Suc n) ps s = Some (Ok (), s\<lparr>sbuf := sbuf s @ encode E (map PushStorePath ps)\<rparr>)"
  by (induction ps arbitrary: s) (simp_all add: feed_eq)

lemma handed_over_buffered:
  "handed_over acc (Sender_new w\<lparr>sbuf := sbuf (Sender_new w) @ bs\<rparr>) = acc w @ bs"
  "sender_wf (Sender_new w\<lparr>sbuf := sbuf (Sender_new w) @ bs\<rparr>)"
  "swriter (Sender_new w\<lparr>sbuf := bs'\<rparr>) = w"
  by (simp_all add: handed_over_def sender_wf_def Sender_new_def)

context async_write_live
begin

lemma push_delivers:
  assumes "unix_connect (push_socket args) = Ok w" "healthy w" "patience w < n"
  shows "\<exists>w'. push E poll_write poll_close n unix_connect args =
       Some (\<lparr>p_stdout = [], p_stderr = [], p_exit = 0\<rparr>, Some w') \<and>
     accepted w' = accepted w @ encode E (map PushStorePath (store_paths args))"
proof -
  obtain k where k: "n = Suc k"
    using assms(3) by (cases n) auto
  let ?s = "Sender_new w\<lparr>sbuf := sbuf (Sender_new w) @ encode E (map PushStorePath (store_paths args))\<rparr>"
  obtain s' where "await n (sender_poll_close poll_write poll_close) ?s = Some (Ok (), s')"
    "accepted (swriter s') = handed_over accepted ?s"
    using await_delivers [of "sender_poll_close poll_write poll_close" ?s n] assms(2,3)
    by (auto simp: handed_over_buffered)
  with assms(1) show ?thesis
    by (simp add: push_def push_result_def k feed_all_eq handed_over_buffered)
qed

lemma send_delivers:
  assumes "healthy w" "patience w < n"
  shows "\<exists>s'. sink_send E poll_write poll_flush n m (Sender_new w) = Some (Ok (), s') \<and>
     accepted (swriter s') = accepted w @ encode_message E m"
proof -
  obtain k where k: "n = Suc k"
    using assms(2) by (cases n) auto
  let ?s = "Sender_new w\<lparr>sbuf := sbuf (Sender_new w) @ encode_message E m\<rparr>"
  obtain s' where "await n (sender_poll_flush poll_write poll_flush) ?s = Some (Ok (), s')"
    "accepted (swriter s') = handed_over accepted ?s"
    using await_delivers [of "sender_poll_flush poll_write poll_flush" ?s n] assms
    by (auto simp: handed_over_buffered)
  then show ?thesis
    by (simp add: sink_send_def k feed_eq handed_over_buffered)
qed

lemma stop_delivers:
  assumes "unix_connect (stop_socket args) = Ok (rh, w)" "healthy w" "patience w < n"
    and "copy rh = (text, Ok len)"
  shows "\<exists>w'. stop E poll_write poll_flush n unix_connect copy args =
       Some (\<lparr>p_stdout = text, p_stderr = [], p_exit = 0\<rparr>, Some w') \<and>
     accepted w' = accepted w @ [STOP_SENTINEL]"
proof -
  obtain s' where "sink_send E poll_write poll_flush n StopDaemon (Sender_new w) = Some (Ok (), s')"
    "accepted (swriter s') = accepted w @ [STOP_SENTINEL]"
    using send_delivers [OF assms(2,3), of E StopDaemon] by auto
  with assms(1,4) show ?thesis
    by (simp add: stop_def stop_result_def)
qed

end

section \<open>Starting\<close>

lemma start_ok_iff:
  "start bind open_store new_cache args = Done (Ok (l, st, c)) \<longleftrightarrow>
     bind (socket args) = Ok l \<and> open_store = Ok st \<and> new_cache args = Done (Ok c)"
  by (auto simp: start_def split: sum.splits)

lemma connect_err_iff [simp]:
  "Err er = bind_result (map_err ConnectToCache res) (\<lambda>c. Ok (f c)) \<longleftrightarrow>
     (\<exists>e. res = Err e \<and> er = ConnectToCache e)"
  by (cases res) auto

lemma start_err_iff:
  "start bind open_store new_cache args = Done (Err er) \<longleftrightarrow>
     (\<exists>e. bind (socket args) = Err e \<and> er = BindSocket e) \<or>
     (\<exists>l e. bind (socket args) = Ok l \<and> open_store = Err e \<and> er = OpenNixStore e) \<or>
     (\<exists>l st e. bind (socket args) = Ok l \<and> open_store = Ok st \<and> new_cache args = Done (Err e) \<and>
        er = ConnectToCache e)"
  by (auto simp: start_def split: sum.splits)

lemma start_returns:
  assumes "new_cache args = Done res"
  obtains l st c where "start bind open_store new_cache args = Done (Ok (l, st, c))"
  | er where "start bind open_store new_cache args = Done (Err er)"
proof (cases "start bind open_store new_cache args")
  case (Done r)
  then show ?thesis by (cases r) (auto intro: that)
qed (use assms in \<open>auto simp: start_def split: sum.splits\<close>)

text \<open>A file that takes every write, and says so.\<close>

definition never_fails :: "'f writer_ops \<Rightarrow> bool" where
  "never_fails W \<longleftrightarrow> (\<forall>bs f. fst (write_all W bs f) = Ok ())"

lemma signal_readiness_out:
  assumes "takes_all W out" "never_fails W"
  shows "\<exists>f'. signal_readiness W show_ne res f = (Ok (), f') \<and>
     out f' = out f @ (case res of Inr _ \<Rightarrow> [0] | Inl er \<Rightarrow> 1 # as_bytes (start_error_fmt show_ne er))"
proof -
  have w: "\<exists>g. write_all W bs h = (Ok (), g) \<and> out g = out h @ bs" for bs h
    using assms by (cases "write_all W bs h") (metis fst_conv never_fails_def snd_conv takes_all_def)
  show ?thesis
  proof (cases res)
    case (Inr d)
    with w [of "[0]" f] show ?thesis by (auto simp: signal_readiness_def)
  next
    case (Inl er)
    obtain g where g: "write_all W [1] f = (Ok (), g)" "out g = out f @ [1]"
      using w by blast
    with Inl w [of "as_bytes (start_error_fmt show_ne er)" g] show ?thesis
      by (auto simp: signal_readiness_def)
  qed
qed

lemma run_signals:
  assumes "takes_all W out" "never_fails W" "ready_fd args = Some fd" "out (from_raw_fd fd) = []"
    and "start bind open_store new_cache args = Done sr"
  shows "\<exists>f. run W from_raw_fd show_ne bind open_store new_cache args =
       Done (case sr of Inr d \<Rightarrow> RunsEventLoop d | Inl _ \<Rightarrow> ExitsWith 1, Some f, []) \<and>
     out f = (case sr of Inr _ \<Rightarrow> [0] | Inl er \<Rightarrow> 1 # as_bytes (start_error_fmt show_ne er))"
proof -
  obtain f where "signal_readiness W show_ne sr (from_raw_fd fd) = (Ok (), f)"
    "out f = (case sr of Inr _ \<Rightarrow> [0] | Inl er \<Rightarrow> 1 # as_bytes (start_error_fmt show_ne er))"
    using signal_readiness_out [OF assms(1,2), of show_ne sr "from_raw_fd fd"] assms(4) by auto
  with assms(3,5) show ?thesis
    by (intro exI [of _ f]) (simp add: run_def split: sum.splits)
qed

section \<open>Lists of upstream caches\<close>

fun join_on :: "char \<Rightarrow> string list \<Rightarrow> string" where
  "join_on c [] = []"
| "join_on c [w] = w"
| "join_on c (w # v # ws) = w @ c # join_on c (v # ws)"

lemma split_on_not_Nil [simp]: "split_on c s \<noteq> []"
  by (cases s) (auto split: list.split)

lemma split_on_append:
  "c \<notin> set w \<Longrightarrow> split_on c (w @ s) = (case split_on c s of [] \<Rightarrow> [w] | v # vs \<Rightarrow> (w @ v) # vs)"
  by (induction w) (auto split: list.split)

lemma split_join:
  "\<forall>w\<in>set ws. c \<notin> set w \<Longrightarrow> ws \<noteq> [] \<Longrightarrow> split_on c (join_on c ws) = ws"
proof (induction c ws rule: join_on.induct)
  case (2 c w)
  then show ?case using split_on_append [of c w "[]"] by simp
qed (auto simp: split_on_append)

lemma collect_results_ok: "map f xs = map Ok ys \<Longrightarrow> collect_results (map f xs) = Ok ys"
  by (induction xs arbitrary: ys) auto

section \<open>Listeners\<close>

text \<open>
  From the listener \<open>l\<close>, the next calls to accept a connection fail with \<open>es\<close> and leave the
  listener \<open>l'\<close>.
\<close>

fun accept_fails :: "('l \<Rightarrow> (io_error + 's) poll \<times> 'l) \<Rightarrow> 'l \<Rightarrow> io_error list \<Rightarrow> 'l \<Rightarrow> bool" where
  "accept_fails acc l [] l' \<longleftrightarrow> l' = l"
| "accept_fails acc l (e # es) l' \<longleftrightarrow> (\<exists>l1. acc l = (Ready (Err e), l1) \<and> accept_fails acc l1 es l')"

definition accept_log :: "io_error list \<Rightarrow> string" where
  "accept_log es = concat (map (\<lambda>e. ''Couldn't accept stream: '' @ io_message e @ [CHR 0x0A]) es)"

text \<open>What ends a poll: a connection, or no connection yet.\<close>

definition accept_ends ::
  "('l \<Rightarrow> (io_error + 's) poll \<times> 'l) \<Rightarrow> 'l \<Rightarrow> 's option poll \<Rightarrow> 'l \<Rightarrow> bool" where
  "accept_ends acc l a l' \<longleftrightarrow>
     acc l = (Pending, l') \<and> a = Pending \<or> (\<exists>stream. acc l = (Ready (Ok stream), l') \<and> a = Ready (Some stream))"

lemma accept_poll_simps:
  "acc l = (Ready (Inl e), l1) \<Longrightarrow> unix_streams_poll_next acc l =
     Option.bind (unix_streams_poll_next acc l1)
       (\<lambda>(a, log, l'). Some (a, eprintln (''Couldn't accept stream: '' @ io_message e) @ log, l'))"
  "acc l = (Ready (Inr stream), l1) \<Longrightarrow> unix_streams_poll_next acc l = Some (Ready (Some stream), [], l1)"
  "acc l = (Pending, l1) \<Longrightarrow> unix_streams_poll_next acc l = Some (Pending, [], l1)"
  by (simp_all add: unix_streams_poll_next.simps [of acc l])

lemma accept_returns:
  "accept_fails acc l es l1 \<Longrightarrow> accept_ends acc l1 a l' \<Longrightarrow> unix_streams_poll_next acc l = Some (a, accept_log es, l')"
  by (induction es arbitrary: l) (auto simp: accept_poll_simps accept_ends_def accept_log_def eprintln_def)

lemma accept_answers:
  assumes "unix_streams_poll_next acc l = Some (a, log, l')"
  shows "\<exists>es l1. accept_fails acc l es l1 \<and> accept_ends acc l1 a l' \<and> log = accept_log es"
proof -
  have "acc' = acc \<longrightarrow> (\<exists>es l1. accept_fails acc l es l1 \<and> accept_ends acc l1 (fst y) (snd (snd y)) \<and>
      fst (snd y) = accept_log es)" if "unix_streams_poll_next acc' l = Some y" for acc' l y
    using that
  proof (rule unix_streams_poll_next.raw_induct [rotated], intro impI)
    fix f acc' l y
    assume IH: "\<And>acc' l y. f acc' l = Some y \<Longrightarrow> acc' = acc \<longrightarrow> (\<exists>es l1. accept_fails acc l es l1 \<and>
        accept_ends acc l1 (fst y) (snd (snd y)) \<and> fst (snd y) = accept_log es)"
      and step: "(case acc' l of
          (Pending, l1) \<Rightarrow> Some (Pending, [], l1)
        | (Ready (Inl err), l1) \<Rightarrow> Option.bind (f acc' l1)
            (\<lambda>(a, log, l'). Some (a, eprintln (''Couldn't accept stream: '' @ io_message err) @ log, l'))
        | (Ready (Inr stream), l1) \<Rightarrow> Some (Ready (Some stream), [], l1)) = Some y"
      and "acc' = acc"
    obtain r l1 where r: "acc l = (r, l1)" by (cases "acc l")
    consider "r = Pending" | stream where "r = Ready (Ok stream)" | e where "r = Ready (Err e)"
      by (metis poll.exhaust sum.exhaust)
    then show "\<exists>es l1. accept_fails acc l es l1 \<and> accept_ends acc l1 (fst y) (snd (snd y)) \<and>
        fst (snd y) = accept_log es"
    proof cases
      case (3 e)
      with step r \<open>acc' = acc\<close> obtain a log l' where y: "f acc l1 = Some (a, log, l')"
          "y = (a, eprintln (''Couldn't accept stream: '' @ io_message e) @ log, l')"
        by (auto simp: bind_eq_Some_conv)
      with IH [of acc l1] obtain es l2 where "accept_fails acc l1 es l2" "accept_ends acc l2 a l'" "log = accept_log es"
        by auto
      with y r 3 show ?thesis
        by (intro exI [of _ "e # es"] exI [of _ l2]) (simp add: accept_log_def eprintln_def)
    qed (use step r \<open>acc' = acc\<close> in
        \<open>intro exI [of _ "[]"] exI [of _ l], auto simp: accept_ends_def accept_log_def\<close>)+
  qed
  with assms show ?thesis by fastforce
qed

lemma accept_fails_longer:
  "accept_fails acc l es l1 \<Longrightarrow> accept_fails acc l es' l2 \<Longrightarrow> length es < length es' \<Longrightarrow> \<not> accept_ends acc l1 a l'"
proof (induction es arbitrary: l es')
  case Nil
  then show ?case by (cases es') (auto simp: accept_ends_def)
next
  case (Cons e es)
  then show ?case by (cases es') auto
qed

lemma accept_never_returns:
  "unix_streams_poll_next acc l = None \<Longrightarrow> \<exists>es l'. length es = n \<and> accept_fails acc l es l'"
proof (induction n arbitrary: l)
  case (Suc n)
  obtain r l1 where r: "acc l = (r, l1)" by (cases "acc l")
  with Suc.prems obtain e where e: "r = Ready (Err e)"
    by (metis accept_poll_simps(2, 3) option.distinct(1) poll.exhaust sum.exhaust)
  with r Suc.prems have "unix_streams_poll_next acc l1 = None"
    by (cases "unix_streams_poll_next acc l1") (auto simp: accept_poll_simps)
  from Suc.IH [OF this] r e show ?case
    by (metis accept_fails.simps(2) length_Cons)
qed (auto intro: exI [of _ "[]"])

section \<open>Properties\<close>

text \<open>
  C33: The readiness file tells the parent the truth. It receives a zero byte exactly when the
  socket is bound, the store open and the cache connected, and then the daemon goes on to run
  the event loop on them; otherwise it receives a one and the message of the first step that
  failed, in this order, and the daemon exits with status 1.
\<close>

theorem ready_signal:
  assumes "takes_all W out" "never_fails W" "ready_fd args = Some fd" "out (from_raw_fd fd) = []"
    and "new_cache args = Done res"
  shows "\<exists>e f. run W from_raw_fd show_ne bind open_store new_cache args = Done (e, Some f, []) \<and>
     ((\<exists>l st c. bind (socket args) = Ok l \<and> open_store = Ok st \<and> res = Ok c \<and>
         e = RunsEventLoop (l, st, c) \<and> out f = [0]) \<or>
      (\<exists>er. e = ExitsWith 1 \<and> out f = 1 # as_bytes (start_error_fmt show_ne er) \<and>
         ((\<exists>x. bind (socket args) = Err x \<and> er = BindSocket x) \<or>
          (\<exists>l x. bind (socket args) = Ok l \<and> open_store = Err x \<and> er = OpenNixStore x) \<or>
          (\<exists>l st x. bind (socket args) = Ok l \<and> open_store = Ok st \<and> res = Err x \<and> er = ConnectToCache x))))"
proof (cases rule: start_returns [where new_cache = new_cache and args = args and bind = bind and
      open_store = open_store, OF assms(5)])
  case (1 l st c)
  with run_signals [where from_raw_fd = from_raw_fd, OF assms(1-4) 1] assms(5) show ?thesis
    by (auto simp: start_ok_iff)
next
  case (2 er)
  with run_signals [where from_raw_fd = from_raw_fd, OF assms(1-4) 2] assms(5) show ?thesis
    by (auto simp: start_err_iff)
qed

definition sample_run_args :: "string run_args" where
  "sample_run_args = \<lparr>socket = ''/tmp/s'', ready_fd = Some 3, upstream_caches = [],
     sub60_cache_args = \<lparr>arg_user = ''u'', arg_cache = ''c'', arg_auth_token = ''t''\<rparr>, run_cache = NoopKind\<rparr>"

theorem ready_signal_witness:
  "\<exists>e f. run list_writer (\<lambda>fd. []) (\<lambda>e. e) (\<lambda>p. Err (IoError OtherKind ''in use'') :: io_error + unit)
       (Ok () :: string + unit) (\<lambda>a. Done (Ok ()) :: (unit sub60_cache_connect_error + unit) outcome) sample_run_args =
       Done (e, Some f, []) \<and>
     e = ExitsWith 1 \<and> f = 1 # as_bytes ''Couldn't bind to Unix domain socket: in use''"
proof -
  have "takes_all list_writer (\<lambda>w. w)" "never_fails list_writer" "ready_fd sample_run_args = Some 3"
    by (simp_all add: takes_all_def never_fails_def list_writer_def sample_run_args_def)
  from ready_signal [OF this, of "\<lambda>fd. []" "\<lambda>a. Done (Ok ()) :: (unit sub60_cache_connect_error + unit) outcome"
      "Ok ()" "\<lambda>e. e" "\<lambda>p. Err (IoError OtherKind ''in use'') :: io_error + unit" "Ok () :: string + unit"]
  show ?thesis by auto
qed

text \<open>
  The option \<open>--upstream-caches\<close> takes back what was written: for URLs that print without a
  comma and parse back, the list separated by commas is read as these URLs in their order, with
  any number of empty entries (stray commas, or the empty default) in between.
\<close>

theorem upstream_caches_roundtrip:
  assumes "filter (\<lambda>w. w \<noteq> []) ws = map show_url urls" "\<forall>w\<in>set ws. CHR '','' \<notin> set w" "ws \<noteq> []"
    and "\<forall>u\<in>set urls. parse_url (show_url u) = Ok u"
  shows "parse_upstream_caches parse_url (join_on CHR '','' ws) = Ok urls"
proof -
  have "map parse_url (map show_url urls) = map Ok urls"
    using assms(4) by simp
  then show ?thesis
    using collect_results_ok [of parse_url "map show_url urls" urls] assms(1)
    by (simp add: parse_upstream_caches_def split_join [OF assms(2,3)])
qed

theorem upstream_caches_roundtrip_witness:
  "parse_upstream_caches (\<lambda>s. if take 5 s = ''https'' then Ok s else Err ()) ''https://a,,https://b,'' =
     Ok [''https://a'', ''https://b'']"
  using upstream_caches_roundtrip [of "[''https://a'', [], ''https://b'', []]" "\<lambda>u. u"
      "[''https://a'', ''https://b'']" "\<lambda>s. if take 5 s = ''https'' then Ok s else Err ()"]
  by simp

text \<open>
  C40: Failures to accept are logged and skipped within the same poll: it returns exactly when
  the failures of the listener come to an end, with the connection accepted then (or pending, if
  there is none yet) and every failure logged in order. If the listener keeps failing, however
  often it is asked, the poll does not return.
\<close>

theorem accept_skips_failures:
  "(unix_streams_poll_next acc l = Some (a, log, l') \<longleftrightarrow>
      (\<exists>es l1. accept_fails acc l es l1 \<and> accept_ends acc l1 a l' \<and> log = accept_log es)) \<and>
   (unix_streams_poll_next acc l = None \<longleftrightarrow> (\<forall>n. \<exists>es l'. length es = n \<and> accept_fails acc l es l'))"
proof (intro conjI iffI)
  show "\<exists>es l1. accept_fails acc l es l1 \<and> accept_ends acc l1 a l' \<and> log = accept_log es \<Longrightarrow>
      unix_streams_poll_next acc l = Some (a, log, l')"
    using accept_returns by fast
  assume forever: "\<forall>n. \<exists>es l'. length es = n \<and> accept_fails acc l es l'"
  show "unix_streams_poll_next acc l = None"
  proof (rule ccontr)
    assume "unix_streams_poll_next acc l \<noteq> None"
    then obtain es l1 a l' where es: "accept_fails acc l es l1" "accept_ends acc l1 a l'"
      using accept_answers by (metis not_None_eq prod_cases3)
    obtain es' l2 where "length es' = Suc (length es)" "accept_fails acc l es' l2"
      using forever by blast
    with accept_fails_longer [OF es(1)] es(2) show False by (metis lessI)
  qed
qed (use accept_answers [of acc l] accept_never_returns [of acc l] in blast)+

text \<open>Two instances: a listener that runs out of file descriptors once, and one that has none for good.\<close>

lemma accept_recovers:
  "unix_streams_poll_next (\<lambda>l. case l of [] \<Rightarrow> (Pending, []) | x # xs \<Rightarrow> (Ready x, xs)) [Err e, Ok stream] =
     Some (Ready (Some stream), accept_log [e], [])"
proof -
  let ?acc = "\<lambda>l. case l of [] \<Rightarrow> (Pending, []) | x # xs \<Rightarrow> (Ready x, xs)"
  have "accept_fails ?acc [Err e, Ok stream] [e] [Ok stream]"
    "accept_ends ?acc [Ok stream] (Ready (Some stream)) []"
    by (simp_all add: accept_ends_def)
  then show ?thesis by (rule accept_returns)
qed

lemma accept_stuck:
  assumes "\<And>l. acc l = (Ready (Err e), l)"
  shows "unix_streams_poll_next acc l = None"
proof (cases "unix_streams_poll_next acc l")
  case (Some y)
  obtain a log l' where "y = (a, log, l')" by (rule prod_cases3)
  with Some have "unix_streams_poll_next acc l = Some (a, log, l')" by simp
  from accept_answers [OF this] show ?thesis by (auto simp: accept_ends_def assms)
qed

end
