(* ===== verification/Nix_Store_Correct.thy ===== *)
theory Nix_Store_Correct
  imports Nix_Store Handle_Path_Correct Protocol_Correct
begin

text \<open>
  The walk over the file system writes the NAR of the tree it finds, in the one order the
  format allows; the closure and the infos of a path are read completely or fail with the first
  error; and the way the store closes its writer keeps \<open>handle_store_path\<close> from waiting for
  ever.
\<close>

section \<open>The tree on disk and its NAR\<close>

datatype fs_node =
    FsFile u32 bytes
  | FsSymlink os_string
  | FsDir "(os_string \<times> fs_node) list"

fun realises :: "fs_ops \<Rightarrow> fs_path \<Rightarrow> fs_node \<Rightarrow> bool" where
  "realises F p (FsFile mode contents) \<longleftrightarrow>
     fs_symlink_metadata F p =
       Ok \<lparr>md_file_type = RegularFile, md_mode = mode, md_len = of_nat (length contents)\<rparr> \<and>
     fs_open F p = Ok contents"
| "realises F p (FsSymlink target) \<longleftrightarrow>
     (\<exists>md. fs_symlink_metadata F p = Ok md \<and> md_file_type md = Symlink) \<and> fs_read_link F p = Ok target"
| "realises F p (FsDir children) \<longleftrightarrow>
     (\<exists>md. fs_symlink_metadata F p = Ok md \<and> md_file_type md = Directory) \<and>
     (\<exists>names. fs_read_dir F p = Ok (map Ok names) \<and> mset names = mset (map fst children)) \<and>
     distinct (map fst children) \<and> (\<forall>(n, t) \<in> set children. realises F (p @ [n]) t)"

text \<open>The calls that write a tree: a directory's children in the order of their names.\<close>

fun nar_events :: "fs_node \<Rightarrow> nar_event list" where
  "nar_events (FsFile mode contents) = [NarFile (mode AND 64 \<noteq> 0) (of_nat (length contents)) contents]"
| "nar_events (FsSymlink target) = [NarSymlink (os_bytes target)]"
| "nar_events (FsDir children) =
     NarDirectory #
     concat (map snd (sort_key fst (map (\<lambda>(n, t). (n, NarEntry (os_bytes n) # nar_events t)) children))) @
     [NarClose]"

fun fs_height :: "fs_node \<Rightarrow> nat" where
  "fs_height (FsFile mode contents) = 0"
| "fs_height (FsSymlink target) = 0"
| "fs_height (FsDir children) = Suc (foldr max (map (\<lambda>(n, t). fs_height t) children) 0)"

text \<open>Making calls one after the other until one is refused.\<close>

fun emit_all :: "nar_sink \<Rightarrow> nar_event list \<Rightarrow> nar_event list \<Rightarrow> (io_error + unit) \<times> nar_event list" where
  "emit_all N [] log = (Ok (), log)"
| "emit_all N (ev # evs) log =
     (case emit N ev log of (Inl e, log') \<Rightarrow> (Err e, log') | (Inr _, log') \<Rightarrow> emit_all N evs log')"

lemma emit_all_append:
  "emit_all N (evs @ evs') log =
     (case emit_all N evs log of (Inl e, log') \<Rightarrow> (Err e, log') | (Inr _, log') \<Rightarrow> emit_all N evs' log')"
  by (induction evs arbitrary: log) (auto split: prod.splits sum.splits)

lemma emit_all_single: "emit_all N [ev] log = emit N ev log"
  by (auto split: prod.splits sum.splits)

lemma emit_all_prefix:
  assumes "emit_all N evs log = (res, log')"
  shows "\<exists>pre rest. evs = pre @ rest \<and> log' = log @ pre \<and> (res = Ok () \<longleftrightarrow> rest = [])"
  using assms
proof (induction evs arbitrary: log)
  case (Cons ev evs)
  show ?case
  proof (cases "N log ev")
    case None
    with Cons.prems have "emit_all N evs (log @ [ev]) = (res, log')"
      by (simp add: emit_def)
    from Cons.IH [OF this] obtain pre rest where
      "evs = pre @ rest" "log' = (log @ [ev]) @ pre" "res = Ok () \<longleftrightarrow> rest = []" by blast
    then show ?thesis
      by (intro exI [of _ "ev # pre"] exI [of _ rest]) simp
  next
    case (Some e)
    with Cons.prems show ?thesis
      by (intro exI [of _ "[]"] exI [of _ "ev # evs"]) (auto simp: emit_def)
  qed
qed auto

lemma collect_entries_Ok [simp]: "collect_entries (map Ok names) acc = Ok (acc @ names)"
  by (induction names arbitrary: acc) auto

lemma foldr_max_le: "x \<in> set xs \<Longrightarrow> x \<le> foldr max xs (0 :: nat)"
  by (induction xs) (auto simp: le_max_iff_disj)

lemma height_child: "(n, t) \<in> set children \<Longrightarrow> fs_height t < fs_height (FsDir children)"
proof -
  assume "(n, t) \<in> set children"
  then have "fs_height t \<in> set (map (\<lambda>(n, t). fs_height t) children)"
    by force
  from foldr_max_le [OF this] show ?thesis
    by simp
qed

text \<open>A list of names with the calls for each of them, as the loop over a directory makes them.\<close>

lemma write_children_emits:
  assumes "\<And>n log. n \<in> set names \<Longrightarrow> write_node F N k (p @ [n]) log = Some (emit_all N (f n) log)"
  shows "write_children F N k names p log =
    Some (emit_all N (concat (map (\<lambda>n. NarEntry (os_bytes n) # f n) names)) log)"
  using assms
proof (induction names arbitrary: log)
  case (Cons n names)
  have IH: "write_children F N k names p log = Some (emit_all N (concat (map (\<lambda>n. NarEntry (os_bytes n) # f n) names)) log)" for log
    using Cons by simp
  show ?case
    by (auto simp: Cons.prems IH emit_all_append Let_def split: prod.splits sum.splits)
qed simp

lemma sort_eq_if_mset_eq: "mset xs = mset ys \<Longrightarrow> sort xs = sort ys"
  by (metis mset_sort properties_for_sort sorted_sort)

lemma sort_children:
  assumes "distinct (map fst children)"
  shows "sort_key fst (map (\<lambda>(n, t). (n, g n t)) children) =
    map (\<lambda>n. (n, g n (the (map_of children n)))) (sort (map fst children))"
proof (rule sort_key_inj_key_eq)
  let ?h = "\<lambda>n. (n, g n (the (map_of children n)))" let ?xs = "map (\<lambda>(n, t). (n, g n t)) children"
  have "map_of children n = Some t" if "(n, t) \<in> set children" for n t
    using assms that by (rule map_of_is_SomeI)
  then have e: "?xs = map (?h \<circ> fst) children"
    by (intro map_cong) auto
  show "mset ?xs = mset (map ?h (sort (map fst children)))"
    unfolding e by (simp add: multiset.map_comp)
  have "map fst ?xs = map fst children"
    by (simp add: comp_def case_prod_beta)
  with assms show "inj_on fst (set ?xs)"
    by (metis distinct_map)
  show "sorted (map fst (map ?h (sort (map fst children))))"
    by (simp add: comp_def)
qed

lemma realises_child:
  assumes "realises F p (FsDir children)" "n \<in> set (map fst children)"
  shows "realises F (p @ [n]) (the (map_of children n))" "(n, the (map_of children n)) \<in> set children"
proof -
  have d: "distinct (map fst children)" and r: "\<forall>(n, t) \<in> set children. realises F (p @ [n]) t"
    using assms(1) by simp_all
  obtain t where t: "(n, t) \<in> set children"
    using assms(2) by force
  with map_of_is_SomeI [OF d t] r show "realises F (p @ [n]) (the (map_of children n))"
    "(n, the (map_of children n)) \<in> set children" by auto
qed

lemma write_node_emits:
  "realises F p t \<Longrightarrow> fs_height t < k \<Longrightarrow> write_node F N k p log = Some (emit_all N (nar_events t) log)"
proof (induction t arbitrary: p k log)
  case (FsDir children)
  obtain names md where dir: "fs_symlink_metadata F p = Ok md" "md_file_type md = Directory"
    "fs_read_dir F p = Ok (map Ok names)" "mset names = mset (map fst children)" "distinct (map fst children)"
    using FsDir.prems(1) by auto
  obtain k' where k: "k = Suc k'"
    using FsDir.prems(2) by (cases k) auto
  have sorted: "read_dir_entries F p = Ok (sort (map fst children))"
    using dir(3) sort_eq_if_mset_eq [OF dir(4)] by (simp add: read_dir_entries_def)
  let ?f = "\<lambda>n. nar_events (the (map_of children n))"
  have "write_children F N k' (sort (map fst children)) p log =
      Some (emit_all N (concat (map (\<lambda>n. NarEntry (os_bytes n) # ?f n) (sort (map fst children)))) log)" for log
  proof (rule write_children_emits)
    fix n log
    assume "n \<in> set (sort (map fst children))"
    then have n: "n \<in> set (map fst children)" by simp
    note child = realises_child [OF FsDir.prems(1) n]
    show "write_node F N k' (p @ [n]) log = Some (emit_all N (?f n) log)"
      using FsDir.IH [OF child(2) _ child(1)] height_child [OF child(2)] FsDir.prems(2) k by simp
  qed
  moreover have "nar_events (FsDir children) =
      NarDirectory # concat (map (\<lambda>n. NarEntry (os_bytes n) # ?f n) (sort (map fst children))) @ [NarClose]"
    using sort_children [OF dir(5), of "\<lambda>n t. NarEntry (os_bytes n) # nar_events t"] by (simp add: comp_def)
  ultimately show ?case
    using dir(1, 2) sorted k
    by (auto simp: emit_all_append emit_all_single simp del: emit_all.simps(2) nar_events.simps
        simp: emit_all.simps(2) [of N NarDirectory] split: prod.splits sum.splits)
next
  case (FsFile mode contents)
  then show ?case
    by (cases k) (auto split: prod.splits sum.splits)
next
  case (FsSymlink target)
  then show ?case
    by (cases k) (auto split: prod.splits sum.splits)
qed

section \<open>The format\<close>

text \<open>
  The trees a NAR describes and the calls that describe them: a file's size is that of its
  contents, and the names in a directory are strictly ascending.
\<close>

datatype nar_tree =
    TFile bool bytes
  | TSymlink bytes
  | TDir "(bytes \<times> nar_tree) list"

inductive nar_wf :: "nar_tree \<Rightarrow> nar_event list \<Rightarrow> bool"
  and nar_entries :: "(bytes \<times> nar_tree) list \<Rightarrow> nar_event list \<Rightarrow> bool" where
  wf_file: "unat sz = length contents \<Longrightarrow> nar_wf (TFile x contents) [NarFile x sz contents]"
| wf_symlink: "nar_wf (TSymlink target) [NarSymlink target]"
| wf_dir: "sorted_wrt (<) (map fst cs) \<Longrightarrow> nar_entries cs evs \<Longrightarrow> nar_wf (TDir cs) (NarDirectory # evs @ [NarClose])"
| entries_Nil: "nar_entries [] []"
| entries_Cons: "nar_wf t evs \<Longrightarrow> nar_entries cs evs' \<Longrightarrow> nar_entries ((n, t) # cs) (NarEntry n # evs @ evs')"

inductive_cases nar_wf_cases: "nar_wf t evs"
inductive_cases nar_entries_cases: "nar_entries cs evs"

text \<open>The format is unambiguous: the calls determine the tree.\<close>

lemma nar_unambiguous:
  "nar_wf t evs \<Longrightarrow> (\<forall>t' evs' r r'. nar_wf t' evs' \<longrightarrow> evs @ r = evs' @ r' \<longrightarrow> t = t' \<and> r = r')"
  "nar_entries cs evs \<Longrightarrow>
     (\<forall>cs' evs' r r'. nar_entries cs' evs' \<longrightarrow> evs @ NarClose # r = evs' @ NarClose # r' \<longrightarrow> cs = cs' \<and> r = r')"
proof (induction rule: nar_wf_nar_entries.inducts)
  case (wf_file sz contents x)
  then show ?case
    by (auto elim: nar_wf_cases)
next
  case (wf_symlink target)
  then show ?case
    by (auto elim: nar_wf_cases)
next
  case (wf_dir cs evs)
  show ?case
  proof (intro allI impI)
    fix t' evs' r r'
    assume "nar_wf t' evs'" "(NarDirectory # evs @ [NarClose]) @ r = evs' @ r'"
    then obtain cs' evs2 where "t' = TDir cs'" "nar_entries cs' evs2" "evs @ NarClose # r = evs2 @ NarClose # r'"
      by (cases rule: nar_wf.cases) auto
    with wf_dir.IH show "TDir cs = t' \<and> r = r'"
      by blast
  qed
next
  case entries_Nil
  show ?case
    by (auto elim: nar_entries_cases)
next
  case (entries_Cons t evs cs evs2 n)
  show ?case
  proof (intro allI impI)
    fix cs' evs' r r'
    assume "nar_entries cs' evs'" "(NarEntry n # evs @ evs2) @ NarClose # r = evs' @ NarClose # r'"
    then obtain t' evs3 cs3 evs4 where cs': "cs' = (n, t') # cs3" "nar_wf t' evs3" "nar_entries cs3 evs4"
      "evs @ (evs2 @ NarClose # r) = evs3 @ (evs4 @ NarClose # r')"
      by (cases rule: nar_entries.cases) auto
    with entries_Cons.IH show "(n, t) # cs = cs' \<and> r = r'"
      by blast
  qed
qed

fun nar_tree_of :: "fs_node \<Rightarrow> nar_tree" where
  "nar_tree_of (FsFile mode contents) = TFile (mode AND 64 \<noteq> 0) contents"
| "nar_tree_of (FsSymlink target) = TSymlink (os_bytes target)"
| "nar_tree_of (FsDir children) =
     TDir (map (\<lambda>(n, t). (os_bytes n, t)) (sort_key fst (map (\<lambda>(n, t). (n, nar_tree_of t)) children)))"

text \<open>Names are different within a directory and the size of a file fits 64 bits.\<close>

fun fs_ok :: "fs_node \<Rightarrow> bool" where
  "fs_ok (FsFile mode contents) \<longleftrightarrow> length contents < 2 ^ 64"
| "fs_ok (FsSymlink target) \<longleftrightarrow> True"
| "fs_ok (FsDir children) \<longleftrightarrow> distinct (map fst children) \<and> (\<forall>(n, t) \<in> set children. fs_ok t)"

lemma nar_entries_map:
  assumes "\<And>n. n \<in> set ns \<Longrightarrow> nar_wf (t n) (evs n)"
  shows "nar_entries (map (\<lambda>n. (os_bytes n, t n)) ns) (concat (map (\<lambda>n. NarEntry (os_bytes n) # evs n) ns))"
  using assms by (induction ns) (auto intro: nar_wf_nar_entries.intros)

lemma nar_events_wf: "fs_ok t \<Longrightarrow> nar_wf (nar_tree_of t) (nar_events t)"
proof (induction t)
  case (FsFile mode contents)
  then show ?case
    by (auto intro!: wf_file simp: unat_of_nat)
next
  case (FsSymlink target)
  show ?case
    by (simp add: wf_symlink)
next
  case (FsDir children)
  let ?ns = "sort (map fst children)" let ?t = "\<lambda>n. the (map_of children n)"
  have d: "distinct (map fst children)"
    using FsDir.prems by simp
  have tree: "nar_tree_of (FsDir children) = TDir (map (\<lambda>n. (os_bytes n, nar_tree_of (?t n))) ?ns)"
    using sort_children [OF d, of "\<lambda>n t. nar_tree_of t"] by simp
  have evs: "nar_events (FsDir children) =
      NarDirectory # concat (map (\<lambda>n. NarEntry (os_bytes n) # nar_events (?t n)) ?ns) @ [NarClose]"
    using sort_children [OF d, of "\<lambda>n t. NarEntry (os_bytes n) # nar_events t"] by (simp add: comp_def)
  have "sorted_wrt (<) ?ns"
    using d by (simp add: strict_sorted_iff)
  then have "sorted_wrt (<) (map fst (map (\<lambda>n. (os_bytes n, nar_tree_of (?t n))) ?ns))"
    by (simp add: sorted_wrt_map comp_def flip: less_os_string_def)
  moreover have "nar_entries (map (\<lambda>n. (os_bytes n, nar_tree_of (?t n))) ?ns)
      (concat (map (\<lambda>n. NarEntry (os_bytes n) # nar_events (?t n)) ?ns))"
  proof (rule nar_entries_map)
    fix n
    assume "n \<in> set ?ns"
    then obtain t where t: "(n, t) \<in> set children" by force
    with map_of_is_SomeI [OF d t] FsDir show "nar_wf (nar_tree_of (?t n)) (nar_events (?t n))"
      by fastforce
  qed
  ultimately show ?case
    unfolding tree evs by (rule wf_dir)
qed

section \<open>Closures and infos\<close>

lemma visit_until_break_Ok:
  "visit_until_break f xs acc = Ok ys \<longleftrightarrow> (\<exists>zs. map f xs = map Ok zs \<and> ys = acc @ zs)"
proof (induction xs arbitrary: acc)
  case (Cons x xs)
  then show ?case
    by (cases "f x") (auto simp: Cons_eq_map_conv)
qed auto

lemma visit_until_break_Err:
  "visit_until_break f xs acc = Err e \<Longrightarrow>
     \<exists>pre x post zs. xs = pre @ x # post \<and> map f pre = map Ok zs \<and> f x = Err e"
proof (induction xs arbitrary: acc)
  case (Cons x xs)
  show ?case
  proof (cases "f x")
    case (Inl d)
    with Cons.prems show ?thesis
      by (intro exI [of _ "[]"] exI [of _ x] exI [of _ xs]) auto
  next
    case (Inr y)
    with Cons.prems Cons.IH obtain pre z post zs where "xs = pre @ z # post" "map f pre = map Ok zs" "f z = Err e"
      by fastforce
    with Inr show ?thesis
      by (intro exI [of _ "x # pre"] exI [of _ z] exI [of _ post] exI [of _ "y # zs"]) simp
  qed
qed simp

text \<open>The callback with its sticky error collects like the loop that stops.\<close>

lemma fold_push_path:
  "fold (push_path X dir) nps (Ok acc) =
     map_ok (\<lambda>bs. acc @ map (\<lambda>b. \<lparr>sp_store_dir = dir, sp_basename = b\<rparr>) bs) (visit_until_break (basename X) nps [])"
proof -
  have step: "push_path X dir np (Err e) = Err e"
    "push_path X dir np (Ok paths) = map_ok (\<lambda>b. paths @ [\<lparr>sp_store_dir = dir, sp_basename = b\<rparr>]) (basename X np)"
    for np e paths
    by (cases "basename X np"; simp add: push_path_def)+
  have err: "fold (push_path X dir) nps (Err e) = Err e" for e nps
    by (induction nps) (auto simp: step)
  have "fold (push_path X dir) nps (Ok (acc @ map (\<lambda>b. \<lparr>sp_store_dir = dir, sp_basename = b\<rparr>) bs)) =
      map_ok (\<lambda>bs. acc @ map (\<lambda>b. \<lparr>sp_store_dir = dir, sp_basename = b\<rparr>) bs) (visit_until_break (basename X) nps bs)" for bs
  proof (induction nps arbitrary: bs)
    case (Cons np nps)
    show ?case
    proof (cases "basename X np")
      case (Inr b)
      with Cons.IH [of "bs @ [b]"] show ?thesis
        by (simp add: step)
    qed (simp add: step err)
  qed simp
  from this [of "[]"] show ?thesis by simp
qed

section \<open>Closing the writer\<close>

text \<open>When the walk succeeds, it made the calls that describe the tree.\<close>

lemma write_node_Ok:
  assumes "realises F p t" "fs_height t < k" "write_node F N k p log = Some (Ok (), log @ evs)"
  shows "nar_events t = evs"
proof -
  have e: "emit_all N (nar_events t) log = (Ok (), log @ evs)"
    using write_node_emits [OF assms(1, 2), of N log] assms(3) by simp
  from emit_all_prefix [OF e] show ?thesis
    by auto
qed

lemma nix_store_run:
  assumes "nix_store_write_nar F N enc part shutdown k writer p = Some nw"
  obtains walked log calls written w' where "walk_store_path F N k p = Some (walked, log)"
    "write_bufs (concat (map enc log) @ (case walked of Inl e \<Rightarrow> part log | Inr _ \<Rightarrow> [])) writer = (calls, written, w')"
    "nw_calls nw = calls" "nw_result nw = bind_result (bind_result written (\<lambda>_. walked)) (\<lambda>_. shutdown)"
    "nw_closed nw \<longleftrightarrow> nw_result nw = Ok ()"
proof -
  obtain walked log where walk: "walk_store_path F N k p = Some (walked, log)"
    using assms by (auto simp: nix_store_write_nar_def)
  obtain calls written w' where bufs: "write_bufs (concat (map enc log) @
      (case walked of Inl e \<Rightarrow> part log | Inr _ \<Rightarrow> [])) writer = (calls, written, w')"
    by (rule prod_cases3)
  from walk bufs assms show thesis
    by (intro that [OF walk bufs]) (auto simp: nix_store_write_nar_def Let_def)
qed

lemma nix_store_closes_iff_ok:
  "nix_store_write_nar F N enc part shutdown k writer p = Some nw \<Longrightarrow> nw_closed nw \<longleftrightarrow> nw_result nw = Ok ()"
  by (rule nix_store_run)

text \<open>
  Replaying the polls on the hashing writer around the pipe: a \<open>write_all\<close> that succeeds puts
  its buffers into the pipe completely, however often it was put off or cut short.
\<close>

lemma write_half_Cons [simp]:
  "write_half upd (buf # calls) h = write_half upd calls (snd (hcw_poll_write upd sw_poll_write buf h))"
  by (simp add: write_half_def)

lemma write_half_append [simp]: "write_half upd (as @ bs) h = write_half upd bs (write_half upd as h)"
  by (simp add: write_half_def)

lemma write_half_Nil [simp]: "write_half upd [] h = h"
  by (simp add: write_half_def)

lemma inner_hcw_poll_write [simp]: "inner (snd (hcw_poll_write upd pw buf h)) = snd (pw buf (inner h))"
  by (cases "pw buf (inner h)") (auto split: poll.split sum.split)

lemma write_all_whole:
  assumes "write_all_calls buf w = (calls, res, w')" "inner h = w"
  shows "inner (write_half upd calls h) = w'" "res = Ok () \<Longrightarrow> w_accepted w' = w_accepted w @ buf"
proof -
  have "inner (write_half upd calls h) = w' \<and> (res = Ok () \<longrightarrow> w_accepted w' = w_accepted w @ buf)"
    using assms
  proof (induction buf w arbitrary: calls res w' h rule: write_all_calls.induct)
    case (1 buf w)
    obtain a w1 where poll: "sw_poll_write buf w = (a, w1)"
      by (cases "sw_poll_write buf w")
    show ?case
    proof (cases "buf = []")
      case False
      let ?h = "snd (hcw_poll_write upd sw_poll_write buf h)"
      have h: "inner ?h = w1"
        using poll 1(4) inner_hcw_poll_write [of upd sw_poll_write buf h]
      by (simp del: sw_poll_write.simps hcw_poll_write.simps inner_hcw_poll_write)
      show ?thesis
      proof (cases a)
        case Pending
        then show ?thesis
          using 1(1) [OF False poll [symmetric] Pending, of _ _ _ ?h] 1(3) poll False h sw.write_pending [of buf w w1]
          by (auto simp: write_all_calls.simps [of buf w] apfst_def map_prod_def split: prod.splits
              simp del: sw_poll_write.simps hcw_poll_write.simps)
      next
        case (Ready r)
        show ?thesis
        proof (cases r)
          case (Inl e)
          with Ready poll False h 1(3) show ?thesis
            by (auto simp: write_all_calls.simps [of buf w] simp del: sw_poll_write.simps hcw_poll_write.simps)
        next
          case (Inr n)
          then show ?thesis
            using 1(2) [OF False poll [symmetric] Ready Inr, of _ _ _ ?h] 1(3) poll False h Ready sw.write_ok [of buf w n w1]
            by (auto simp: write_all_calls.simps [of buf w] apfst_def map_prod_def split: prod.splits if_splits
                simp del: sw_poll_write.simps hcw_poll_write.simps)
        qed
      qed
    qed (use 1(3, 4) in \<open>auto simp: write_all_calls.simps [of "[]"]\<close>)
  qed
  then show "inner (write_half upd calls h) = w'" "res = Ok () \<Longrightarrow> w_accepted w' = w_accepted w @ buf"
    by simp_all
qed

lemma write_bufs_whole:
  "write_bufs bufs w = (calls, res, w') \<Longrightarrow> inner h = w \<Longrightarrow>
     inner (write_half upd calls h) = w' \<and> (res = Ok () \<longrightarrow> w_accepted w' = w_accepted w @ concat bufs)"
proof (induction bufs arbitrary: w calls res w' h)
  case (Cons buf bufs)
  obtain calls1 res1 w1 where all: "write_all_calls buf w = (calls1, res1, w1)"
    by (rule prod_cases3)
  obtain calls2 res2 w2 where rest: "write_bufs bufs w1 = (calls2, res2, w2)"
    by (rule prod_cases3)
  note one = write_all_whole(1) [OF all Cons.prems(2), of upd] write_all_whole(2) [OF all Cons.prems(2)]
  from Cons.prems(1) all rest one Cons.IH [OF rest, of "write_half upd calls1 h"] show ?case
    by (cases res1) auto
qed simp

lemma try_op_Blocked:
  "try_op x f k = Some (Blocked, s') \<longleftrightarrow>
     x = (Blocked, s') \<or> (\<exists>a s. x = (Done (Ok a), s) \<and> k a s = Some (Blocked, s'))"
  by (cases "(x, f, k)" rule: try_op.cases) auto

lemma try_join_Blocked:
  "try_join_nar write_first written uploaded s = Some (Blocked, s') \<Longrightarrow>
     written = Ok () \<and> (\<exists>st. uploaded = Some (Blocked, st, s'))"
  by (cases written)
    (auto simp: try_join_nar_def split: option.splits prod.splits outcome.splits sum.splits if_splits)

lemma sub60_never_Blocked:
  "sub60_has_narinfo E c h w \<noteq> (Blocked, w')" "sub60_initiate_nar_upload E c p w \<noteq> (Blocked, w')"
  "sub60_upload_narinfo E c h n st w \<noteq> (Blocked, w')"
  by (auto simp: sub60_has_narinfo_def sub60_initiate_nar_upload_def sub60_upload_narinfo_def Let_def
      split: option.splits prod.splits sum.splits)

lemma should_push_not_Blocked:
  "should_push_store_path H (sub60_cache_ops E c) ups h w \<noteq> (Blocked, w')"
proof
  assume b: "should_push_store_path H (sub60_cache_ops E c) ups h w = (Blocked, w')"
  obtain out w1 where has: "sub60_has_narinfo E c h w = (out, w1)"
    by (cases "sub60_has_narinfo E c h w")
  with sub60_never_Blocked(1) [of E c h w w1] have "out \<noteq> Blocked" by auto
  moreover have up: "upstream_caches_have_narinfo H h ups \<noteq> Blocked"
    by (auto simp: upstream_caches_have_narinfo_def split: option.splits)
  moreover have "cache_answered r (upstream_caches_have_narinfo H h ups) \<noteq> Blocked" for r
    using up by (cases "(r, upstream_caches_have_narinfo H h ups)" rule: cache_answered.cases) auto
  ultimately show False
    using b has
    by (cases out; cases "upstream_caches_have_narinfo H h ups")
      (auto simp: should_push_store_path_def sub60_cache_ops_def upstream_answered_if Let_def
        split: race.splits if_splits)
qed

lemma initiate_not_Blocked: "initiate_nar_upload (sub60_cache_ops E c) p w \<noteq> (Blocked, w')"
  by (simp add: sub60_cache_ops_def sub60_never_Blocked)

lemma push_narinfo_not_Blocked: "push_narinfo H (sub60_cache_ops E c) p writer st w \<noteq> Some (Blocked, w')"
  using sub60_never_Blocked(3) [of E c "store_hash H p" _ st w]
  by (auto simp: push_narinfo_def Let_def try_op_Blocked sub60_cache_ops_def split: sum.splits if_splits)

lemma handle_Blocked:
  assumes "handle_store_path H (sub60_cache_ops E c) ups p w = Some (Blocked, w')"
  shows "nw_result (nix_write_nar H p) = Ok () \<and> (\<exists>st s2 st'. upload_nar (sub60_cache_ops E c) st
    (upload_reader H (nix_write_nar H p) (written_nar H p)) s2 = Some (Blocked, st', w'))"
  using assms
  by (auto simp: handle_store_path_def Let_def try_op_Blocked bind_eq_Some_conv should_push_not_Blocked
      push_narinfo_not_Blocked initiate_not_Blocked simp del: try_join_Ok split: if_splits dest!: try_join_Blocked)

section \<open>Properties\<close>

text \<open>
  C11: \<open>write_nar\<close> on a file system that holds a tree ends and makes the calls that describe
  the tree, one after the other, until the NAR writer refuses one: it returns \<open>Ok\<close> exactly if
  all of them were made. These calls are a well-formed NAR of the tree, with the entries of
  every directory in strictly ascending order, whatever the order the file system lists them in.
\<close>

theorem write_nar_writes_tree:
  assumes "realises F p t" "fs_ok t" "fs_height t < k"
  shows "\<exists>res pre rest. write_node F N k p log = Some (res, log @ pre) \<and> nar_events t = pre @ rest \<and>
      (res = Ok () \<longleftrightarrow> rest = []) \<and> nar_wf (nar_tree_of t) (nar_events t)"
proof -
  obtain res log' where e: "emit_all N (nar_events t) log = (res, log')"
    by (cases "emit_all N (nar_events t) log")
  with emit_all_prefix [OF e] write_node_emits [OF assms(1, 3), of N log] nar_events_wf [OF assms(2)] show ?thesis
    by (metis (no_types, lifting))
qed

definition sample_tree :: fs_node where
  "sample_tree = FsDir [(OsString [98], FsFile 493 [1, 2]), (OsString [97], FsSymlink (OsString [98]))]"

text \<open>The file system whose only content is a given tree, listed in the order of the tree.\<close>

fun fs_lookup :: "fs_node \<Rightarrow> fs_path \<Rightarrow> fs_node option" where
  "fs_lookup t [] = Some t"
| "fs_lookup (FsDir children) (n # p) = Option.bind (map_of children n) (\<lambda>t. fs_lookup t p)"
| "fs_lookup t (n # p) = None"

definition not_found :: io_error where
  "not_found = IoError OtherKind ''No such file or directory''"

definition tree_fs :: "fs_node \<Rightarrow> fs_ops" where
  "tree_fs t =
     \<lparr>fs_symlink_metadata = (\<lambda>p. case fs_lookup t (tl p) of
          None \<Rightarrow> Err not_found
        | Some (FsFile mode contents) \<Rightarrow>
            Ok \<lparr>md_file_type = RegularFile, md_mode = mode, md_len = of_nat (length contents)\<rparr>
        | Some (FsSymlink target) \<Rightarrow> Ok \<lparr>md_file_type = Symlink, md_mode = 511, md_len = 0\<rparr>
        | Some (FsDir children) \<Rightarrow> Ok \<lparr>md_file_type = Directory, md_mode = 493, md_len = 0\<rparr>),
      fs_read_dir = (\<lambda>p. case fs_lookup t (tl p) of
          Some (FsDir children) \<Rightarrow> Ok (map (Ok \<circ> fst) children) | _ \<Rightarrow> Err not_found),
      fs_read_link = (\<lambda>p. case fs_lookup t (tl p) of Some (FsSymlink target) \<Rightarrow> Ok target | _ \<Rightarrow> Err not_found),
      fs_open = (\<lambda>p. case fs_lookup t (tl p) of Some (FsFile mode contents) \<Rightarrow> Ok contents | _ \<Rightarrow> Err not_found),
      fs_display = (\<lambda>p. concat (map (\<lambda>n. CHR 0x2F # str_of_bytes (os_bytes n)) p))\<rparr>"

lemma sample_tree_realised: "realises (tree_fs sample_tree) [OsString []] sample_tree"
  by (simp add: sample_tree_def tree_fs_def) (rule exI [of _ "[OsString [98], OsString [97]]"], simp)

theorem write_nar_writes_tree_witness:
  "\<exists>res pre rest. write_node (tree_fs sample_tree) (\<lambda>log ev. None) 2 [OsString []] [NarOpen] = Some (res, [NarOpen] @ pre) \<and>
      nar_events sample_tree = pre @ rest \<and> (res = Ok () \<longleftrightarrow> rest = []) \<and>
      nar_wf (nar_tree_of sample_tree) (nar_events sample_tree)"
  using sample_tree_realised by (rule write_nar_writes_tree) (simp_all add: sample_tree_def)

text \<open>
  C28: \<open>write_nar\<close> loses nothing: if it makes the same calls for two trees, on any two file
  systems and NAR writers, they are the same tree, up to the order in which their directories
  are listed and the permission bits other than the owner's execute bit.
\<close>

theorem nar_determines_tree:
  assumes "realises F p t" "fs_ok t" "fs_height t < k" "write_node F N k p log = Some (Ok (), log @ evs)"
    and "realises F' p' t'" "fs_ok t'" "fs_height t' < k'" "write_node F' N' k' p' log' = Some (Ok (), log' @ evs)"
  shows "nar_tree_of t = nar_tree_of t'"
proof -
  have "nar_events t = evs" "nar_events t' = evs"
    using write_node_Ok [OF assms(1, 3, 4)] write_node_Ok [OF assms(5, 7, 8)] by simp_all
  moreover have "nar_events t @ [] = nar_events t' @ [] \<longrightarrow> nar_tree_of t = nar_tree_of t' \<and> [] = ([] :: nar_event list)"
    using nar_unambiguous(1) [OF nar_events_wf [OF assms(2)]] nar_events_wf [OF assms(6)] by blast
  ultimately show ?thesis by simp
qed

definition sample_tree_listed :: fs_node where
  "sample_tree_listed = FsDir [(OsString [97], FsSymlink (OsString [98])), (OsString [98], FsFile 64 [1, 2])]"

definition sample_calls :: "nar_event list" where
  "sample_calls = [NarDirectory, NarEntry [97], NarSymlink [98], NarEntry [98], NarFile True 2 [1, 2], NarClose]"

lemma sample_tree_listed_realised: "realises (tree_fs sample_tree_listed) [OsString []] sample_tree_listed"
  by (simp add: sample_tree_listed_def tree_fs_def) (rule exI [of _ "[OsString [97], OsString [98]]"], simp)

theorem nar_determines_tree_witness: "nar_tree_of sample_tree = nar_tree_of sample_tree_listed"
proof (rule nar_determines_tree [OF sample_tree_realised _ _ _ sample_tree_listed_realised])
  show "write_node (tree_fs sample_tree) (\<lambda>log ev. None) 2 [OsString []] [] = Some (Ok (), [] @ sample_calls)"
    "write_node (tree_fs sample_tree_listed) (\<lambda>log ev. None) 2 [OsString []] [] = Some (Ok (), [] @ sample_calls)"
    by code_simp+
qed (simp_all add: sample_tree_def sample_tree_listed_def)

text \<open>
  C29: The closure of a path holds every path Nix visits, in its order and in the store
  directory of the path asked for, or is the error of the first of them whose name cannot be
  read.
\<close>

theorem store_closure_complete:
  assumes "nix_parse_path X path_str p = Ok np" "get_fs_closure X np = (visited, Ok ())"
  shows "(store_closure X path_str p = Ok paths \<longleftrightarrow>
      map (basename X) visited = map (Ok \<circ> sp_basename) paths \<and> (\<forall>q \<in> set paths. sp_store_dir q = sp_store_dir p)) \<and>
    (store_closure X path_str p = Err e \<longrightarrow>
      (\<exists>pre q post bs. visited = pre @ q # post \<and> map (basename X) pre = map Ok bs \<and> basename X q = Err e))"
proof -
  have c: "store_closure X path_str p =
      map_ok (map (\<lambda>b. \<lparr>sp_store_dir = sp_store_dir p, sp_basename = b\<rparr>)) (visit_until_break (basename X) visited [])"
    using assms by (simp add: store_closure_def fold_push_path)
  have "(\<exists>bs. map (basename X) visited = map Ok bs \<and>
        paths = map (\<lambda>b. \<lparr>sp_store_dir = sp_store_dir p, sp_basename = b\<rparr>) bs) \<longleftrightarrow>
      map (basename X) visited = map (Ok \<circ> sp_basename) paths \<and> (\<forall>q \<in> set paths. sp_store_dir q = sp_store_dir p)"
    (is "?l \<longleftrightarrow> ?r")
  proof
    assume ?r
    then have "paths = map (\<lambda>b. \<lparr>sp_store_dir = sp_store_dir p, sp_basename = b\<rparr>) (map sp_basename paths)"
      by (simp add: map_idI)
    with \<open>?r\<close> show ?l
      by (intro exI [of _ "map sp_basename paths"]) simp
  qed (auto simp: comp_def)
  moreover have "store_closure X path_str p = Err e \<Longrightarrow>
      (\<exists>pre q post bs. visited = pre @ q # post \<and> map (basename X) pre = map Ok bs \<and> basename X q = Err e)"
    using c visit_until_break_Err [of "basename X" visited "[]" e]
    by (cases "visit_until_break (basename X) visited []") auto
  ultimately show ?thesis
    by (auto simp: c visit_until_break_Ok)
qed

definition sample_nixb ::
  "(string, unit, string, string, string, string, string, string, string) nixb_env" where
  "sample_nixb =
     \<lparr>store_parse_path = (\<lambda>bs. Ok (str_of_bytes (butlast bs))), query_path_info = (\<lambda>np. Ok ()),
      get_fs_closure = (\<lambda>np. ([''dep'', np], Ok ())), np_hash = (\<lambda>np. Ok np), np_name = (\<lambda>np. np),
      digest_new = (\<lambda>h. h), parse_name = (\<lambda>s. Ok s), from_message = (\<lambda>s. s), debug_str = (\<lambda>s. s),
      show_parse_error = (\<lambda>s. s), with_ca = (\<lambda>i. Ok None), parse_ca = (\<lambda>s. Ok s),
      get_deriver = (\<lambda>i. Ok None), with_references = (\<lambda>i. Ok [''dep'']), with_sigs = (\<lambda>i. Ok [[97]]),
      parse_sig = (\<lambda>s. Ok s), from_utf8_lossy = str_of_bytes\<rparr>"

definition sample_store_path :: "string \<Rightarrow> (string, string) store_path" where
  "sample_store_path s = \<lparr>sp_store_dir = NixStore, sp_basename = \<lparr>bn_hash = s, bn_name = s\<rparr>\<rparr>"

definition sample_path_str :: "(string, string) store_path \<Rightarrow> string" where
  "sample_path_str p = bn_name (sp_basename p)"

theorem store_closure_complete_witness:
  "store_closure sample_nixb sample_path_str (sample_store_path ''p'') =
     Ok [sample_store_path ''dep'', sample_store_path ''p'']"
proof -
  have "nix_parse_path sample_nixb sample_path_str (sample_store_path ''p'') = Ok ''p''"
    "get_fs_closure sample_nixb ''p'' = ([''dep'', ''p''], Ok ())"
    by code_simp+
  from store_closure_complete [OF this, of "[sample_store_path ''dep'', sample_store_path ''p'']"] show ?thesis
    by (simp add: basename_def sample_nixb_def sample_store_path_def)
qed

text \<open>
  The references and the signatures of a path are read completely: the result is \<open>Ok\<close> with
  one element per element Nix has, in order, or an error.
\<close>

theorem path_infos_complete:
  "(nix_references X info = Ok refs \<longleftrightarrow>
      (\<exists>nps. with_references X info = Ok nps \<and> map (basename X) nps = map Ok refs)) \<and>
   (nix_signatures X info = Ok sigs \<longleftrightarrow>
      (\<exists>raw. with_sigs X info = Ok raw \<and> map (signature_from_bytes X) raw = map Ok sigs))"
  by (auto simp: nix_references_def nix_signatures_def visit_until_break_Ok)

text \<open>
  C35: Nix is given a proper C string for a path whose store directory went through
  \<open>StoreDir\<close>'s parser: the bytes passed end in a NUL and have no other. The conversion is
  unchecked in the source.
\<close>

theorem parse_path_c_string:
  assumes "memchr_ok E" "store_dir_from_str E lit s = Ok (sp_store_dir p)" "0 \<notin> set (as_bytes lit)"
    and "path_str p = store_dir_fmt lit (sp_store_dir p) @ ''/'' @ base_str" "0 \<notin> set (as_bytes base_str)"
  shows "\<exists>bs. nix_parse_path X path_str p = store_parse_path X (bs @ [0]) \<and> 0 \<notin> set bs"
proof -
  have "0 \<notin> set (as_bytes (store_dir_fmt lit (sp_store_dir p)))"
  proof (cases "s = lit")
    case True
    with assms(2, 3) show ?thesis
      by (auto simp: store_dir_from_str_def)
  next
    case False
    with assms(2) have "memchr E 0 (as_bytes s) = None" "sp_store_dir p = Other s"
      by (auto simp: store_dir_from_str_def split: option.splits)
    with assms(1) show ?thesis
      by (auto simp: memchr_ok_def)
  qed
  with assms(4, 5) show ?thesis
    by (intro exI [of _ "as_bytes (path_str p)"]) (simp add: nix_parse_path_def)
qed

theorem parse_path_c_string_witness:
  "\<exists>bs. nix_parse_path sample_nixb (\<lambda>p. ''/gnu'' @ ''/'' @ ''x'')
      \<lparr>sp_store_dir = Other ''/gnu'', sp_basename = \<lparr>bn_hash = ''x'', bn_name = ''x''\<rparr>\<rparr> =
    store_parse_path sample_nixb (bs @ [0]) \<and> 0 \<notin> set bs"
  by (rule parse_path_c_string [OF memchr_ok_sample, where lit = "''/nix/store''" and s = "''/gnu''" and base_str = "''x''"])
    (auto simp: store_dir_from_str_def sample_env_def)

text \<open>
  Handling a path never waits for ever on the pipe: the store closes its writer exactly when
  it wrote the whole NAR, so the upload either sees the end of the stream or is cancelled with
  the store's error.
\<close>

theorem handling_never_blocks:
  assumes "nix_store_write_nar F N enc part shutdown k (duplex_writer H NAR_STREAM_BUFFER_SIZE) path = Some (nix_write_nar H p)"
    and "duplex_ok H"
  shows "handle_store_path H (sub60_cache_ops E c) ups p w \<noteq> Some (Blocked, w')"
proof
  let ?nw = "nix_write_nar H p" let ?ops = "sub60_cache_ops E c"
  assume "handle_store_path H ?ops ups p w = Some (Blocked, w')"
  from handle_Blocked [OF this] sub60.waits_open [of E c _ "upload_reader H ?nw (written_nar H p)"]
    upload_reader_simps(2) [OF assms(2)] nix_store_closes_iff_ok [OF assms(1)] show False
    by fastforce
qed

definition tree_env ::
  "(string, string, string, string, string, string, bytes, bytes, string, string, io_error) handle_env" where
  "tree_env =
     \<lparr>store_hash = (\<lambda>p. p), filename_str = (\<lambda>h. h), push_path_segment = (\<lambda>u s. Some (u @ s)),
      http_get = (\<lambda>u. Ok 404), arrival = rev, select_race = CacheFirst,
      sha_new = [], sha_update = (\<lambda>h bs. h @ bs), sha_finalize = (\<lambda>h. h),
      duplex_writer = (\<lambda>k. fresh_writer [Accept 1, WStall] []),
      duplex_reader = (\<lambda>k bs c. \<lparr>r_script = [Chunk bs], r_closed = c\<rparr>),
      nix_write_nar = (\<lambda>p. \<lparr>nw_calls = [[1, 2], [2], [2]], nw_closed = False, nw_result = Err not_found\<rparr>),
      write_fails_first = False, nix_get_path_infos = (\<lambda>p. Ok sample_infos)\<rparr>"

theorem handling_never_blocks_witness:
  "handle_store_path tree_env (sub60_cache_ops path_cloud sample_cache) [] ''p'' no_requests \<noteq> Some (Blocked, no_requests)"
proof (rule handling_never_blocks)
  show "nix_store_write_nar ((tree_fs sample_tree)\<lparr>fs_symlink_metadata := \<lambda>p. Err not_found\<rparr>) (\<lambda>log ev. None)
      (\<lambda>ev. [[1, 2]]) (\<lambda>log. []) (Ok ()) 1 (duplex_writer tree_env NAR_STREAM_BUFFER_SIZE) ''p'' =
    Some (nix_write_nar tree_env ''p'')"
    by code_simp
  show "duplex_ok tree_env"
    by (simp add: duplex_ok_def tree_env_def fresh_writer_def sr_stream_def)
qed

end
