(* ===== verification/Handlers.thy ===== *)
theory Handlers
  imports Nix_Store_Correct
begin

text \<open>
  Handling a path (\<open>handle_store_path\<close>) with the sub60 cache and the NAR writes of
  \<open>NixStore\<close>: it returns, and the bytes it uploads are those of the tree on disk.
\<close>

section \<open>Handlers return\<close>

text \<open>
  A server that answers requests for part URLs with usable ones, a clock that can be read, and a
  cache URL that can be a base.
\<close>

definition usable_server ::
  "('url, 'path, 'base, 'hash, 'narinfo, 'etag, 'x) sub60_env \<Rightarrow> 'url sub60_cache \<Rightarrow> bool" where
  "usable_server S c \<longleftrightarrow> fresh_urls S c \<and> (\<forall>k. now S k \<noteq> None) \<and> cache_base S c"

lemma usable_urls:
  assumes "usable_server S c"
  shows "(narinfo_url S c h = None) = False" "(nar_multiparts_url S c = None) = False"
    "(nar_multiparts_parts_url S c uid = None) = False" "(nar_multiparts_complete_url S c uid = None) = False"
    "(now S k = None) = False"
proof -
  have "cache_base S c"
    using assms by (simp add: usable_server_def)
  then obtain m n pu cu where "nar_multiparts_url S c = Some m" "narinfo_url S c h = Some n"
      "nar_multiparts_parts_url S c uid = Some pu" "nar_multiparts_complete_url S c uid = Some cu"
    by (rule cache_base_urls)
  then show "(narinfo_url S c h = None) = False" "(nar_multiparts_url S c = None) = False"
    "(nar_multiparts_parts_url S c uid = None) = False" "(nar_multiparts_complete_url S c uid = None) = False"
    by simp_all
qed (use assms in \<open>simp add: usable_server_def\<close>)

lemma upload_turn_no_panic:
  assumes "usable_server S c" "upload_turn S c v = Return res"
  shows "fst res \<noteq> Panicked"
  using assms(2) usable_urls [OF assms(1)]
  by (auto simp: upload_turn_def refill_urls_def push_part_def finish_upload_def request_part_urls_def
      complete_nar_upload_def Let_def usable_urls [OF assms(1)] simp del: not_None_eq
      split: option.splits list.splits prod.splits sum.splits fill_outcome.splits if_splits outcome.splits)

lemma sub60_upload_nar_returns:
  assumes "usable_server S c"
  obtains out st' w' where "sub60_upload_nar S c st r w = Some (out, st', w')" "out \<noteq> Panicked"
proof -
  have "fst res \<noteq> Panicked" if "upload_loop S c v = Some res" for v res
    using that
  proof (induction rule: upload_loop_induct)
    case (Return v res)
    with upload_turn_no_panic [OF assms] show ?case by blast
  qed
  moreover obtain res where "sub60_upload_nar S c st r w = Some res"
    using upload_loop_terminates assms unfolding sub60_upload_nar_def usable_server_def by blast
  ultimately show thesis
    using that [of "fst res" "fst (snd res)" "snd (snd res)"] unfolding sub60_upload_nar_def by simp
qed

lemma usable_requests:
  assumes "usable_server S c"
  shows "\<exists>r w'. sub60_has_narinfo S c h w = (Done r, w')" "\<exists>r w'. sub60_initiate_nar_upload S c p w = (Done r, w')"
    "\<exists>r w'. sub60_upload_narinfo S c h n st w = (Done r, w')"
  using usable_urls [OF assms]
  by (auto simp: sub60_has_narinfo_def sub60_initiate_nar_upload_def sub60_upload_narinfo_def
      narinfo_upload_url_def Let_def simp del: not_None_eq split: option.split prod.split sum.split)

lemma try_op_returns:
  assumes "x = (Done r, s)" "\<And>a. r = Ok a \<Longrightarrow> \<exists>res s'. k a s = Some (Done res, s')"
  shows "\<exists>res s'. try_op x f k = Some (Done res, s')"
  using assms by (cases r) auto

lemma bind_returns:
  assumes "\<exists>r s. x = Some (Done r, s)" "\<And>r s. \<exists>res s'. k (Done r, s) = Some (Done res, s')"
  shows "\<exists>res s'. Option.bind x k = Some (Done res, s')"
  using assms by auto

lemma try_join_returns:
  assumes "uploaded = Some (out, st, s')" "out \<noteq> Panicked" "out = Blocked \<Longrightarrow> written \<noteq> Ok ()"
  shows "\<exists>r s''. try_join_nar write_first written uploaded s = Some (Done r, s'')"
  using assms by (cases out; cases written) (auto simp: try_join_nar_def split: sum.split)

lemma should_push_returns:
  assumes "usable_server S c" "push_all_segments (push_path_segment H) (filename_str H h) ups \<noteq> None"
  shows "\<exists>r w'. should_push_store_path H (sub60_cache_ops S c) ups h w = (Done r, w')"
proof -
  obtain r w' where r: "sub60_has_narinfo S c h w = (Done r, w')"
    using usable_requests(1) [OF assms(1)] by blast
  obtain b where b: "upstream_caches_have_narinfo H h ups = Done b"
    using assms(2) by (auto simp: upstream_caches_have_narinfo_def)
  have "\<exists>y. cache_answered r (Done b) = Done y"
    by (cases "(r, Done b :: bool outcome)" rule: cache_answered.cases) auto
  with r b show ?thesis
    by (auto simp: should_push_store_path_def sub60_cache_ops_def upstream_answered_if Let_def split: race.split)
qed

lemma push_narinfo_returns:
  assumes "usable_server S c"
  shows "\<exists>res w'. push_narinfo H (sub60_cache_ops S c) p writer st w = Some (Done res, w')"
proof -
  have "\<exists>res w'. try_op (upload_narinfo (sub60_cache_ops S c) h ni st w) UploadNarInfo
      (\<lambda>k s'. Some (Done (Ok (Some (saturating_add n k))), s')) = Some (Done res, w')" for h ni n
    using usable_requests(3) [OF assms, of h ni st w] by (auto simp: sub60_cache_ops_def intro!: try_op_returns)
  then show ?thesis
    by (auto simp: push_narinfo_def Let_def split: sum.split)
qed

lemma upload_join_returns:
  assumes "usable_server S c" "duplex_ok H" "nw_closed (nix_write_nar H p) \<longleftrightarrow> nw_result (nix_write_nar H p) = Ok ()"
  shows "\<exists>r w'. try_join_nar (write_fails_first H) (nw_result (nix_write_nar H p)) (upload_nar (sub60_cache_ops S c) st
    (upload_reader H (nix_write_nar H p) (written_nar H p)) w) w = Some (Done r, w')"
proof -
  let ?r = "upload_reader H (nix_write_nar H p) (written_nar H p)"
  obtain out st' w' where up: "upload_nar (sub60_cache_ops S c) st ?r w = Some (out, st', w')" "out \<noteq> Panicked"
    by (rule sub60_upload_nar_returns [OF assms(1), of st ?r w]) (simp add: sub60_cache_ops_def)
  have "out = Blocked \<Longrightarrow> nw_result (nix_write_nar H p) \<noteq> Ok ()"
    using up(1) sub60.waits_open [of S c st ?r] upload_reader_simps(2) [OF assms(2)] assms(3) by auto
  with up show ?thesis
    by (intro try_join_returns) auto
qed

lemma handle_returns:
  assumes "usable_server S c" "duplex_ok H"
    and "push_all_segments (push_path_segment H) (filename_str H (store_hash H p)) ups \<noteq> None"
    and "nix_store_write_nar F N enc part shutdown k (duplex_writer H NAR_STREAM_BUFFER_SIZE) path = Some (nix_write_nar H p)"
  shows "\<exists>res w'. handle_store_path H (sub60_cache_ops S c) ups p w = Some (Done res, w')"
proof -
  have join: "\<exists>r w'. try_op (Done (Ok st), w) CreateNarUploadId (\<lambda>st s2. Option.bind
      (try_join_nar (write_fails_first H) (nw_result (nix_write_nar H p)) (upload_nar (sub60_cache_ops S c) st
        (upload_reader H (nix_write_nar H p) (written_nar H p)) s2) s2)
      (\<lambda>j. try_op j id (push_narinfo H (sub60_cache_ops S c) p (written_nar H p)))) = Some (Done r, w')" for st w
    unfolding try_op.simps
    by (rule bind_returns [OF upload_join_returns [OF assms(1, 2) nix_store_closes_iff_ok [OF assms(4)]]],
        rule try_op_returns [OF refl], rule push_narinfo_returns [OF assms(1)])
  obtain r w1 where r: "should_push_store_path H (sub60_cache_ops S c) ups (store_hash H p) w = (Done r, w1)"
    using should_push_returns [OF assms(1, 3)] by blast
  obtain st w2 where "initiate_nar_upload (sub60_cache_ops S c) p w1 = (Done st, w2)"
    using usable_requests(2) [OF assms(1), of p w1] by (auto simp: sub60_cache_ops_def)
  with r join show ?thesis
    unfolding handle_store_path_def Let_def by (cases r; cases st) auto
qed

section \<open>A tree\<close>

text \<open>The bytes of the NAR of a tree: what the NAR writer passes on for the calls that describe it.\<close>

definition nar_bytes :: "(nar_event \<Rightarrow> bytes list) \<Rightarrow> fs_node \<Rightarrow> bytes" where
  "nar_bytes enc t = concat (concat (map enc (NarOpen # nar_events t)))"

lemma tree_walked:
  assumes "walk_store_path F N k path = Some (Ok (), log)"
    and "realises F [OsString (as_bytes path)] t" "fs_height t < k"
  shows "log = NarOpen # nar_events t"
proof -
  obtain res log' where e: "emit_all N (nar_events t) [NarOpen] = (res, log')"
    by (cases "emit_all N (nar_events t) [NarOpen]")
  have "res = Ok () \<and> log' = log"
    using assms(1) write_node_emits [OF assms(2, 3), of N "[NarOpen]"] e
    by (auto simp: walk_store_path_def emit_def split: option.splits)
  with emit_all_prefix [OF e] show ?thesis by auto
qed

lemma tree_nar_of:
  assumes "nix_store_write_nar F N enc part shutdown k (duplex_writer H NAR_STREAM_BUFFER_SIZE) path =
      Some (nix_write_nar H p)" "nw_result (nix_write_nar H p) = Ok ()"
    and "realises F [OsString (as_bytes path)] t" "fs_height t < k" "duplex_ok H"
  shows "nar_of H p = nar_bytes enc t"
proof -
  let ?h = "hcw_new (sha_new H) (duplex_writer H NAR_STREAM_BUFFER_SIZE)"
  obtain walked log calls written w' where run: "walk_store_path F N k path = Some (walked, log)"
    "write_bufs (concat (map enc log) @ (case walked of Inl e \<Rightarrow> part log | Inr _ \<Rightarrow> []))
       (duplex_writer H NAR_STREAM_BUFFER_SIZE) = (calls, written, w')"
    "nw_calls (nix_write_nar H p) = calls"
    "nw_result (nix_write_nar H p) = bind_result (bind_result written (\<lambda>_. walked)) (\<lambda>_. shutdown)"
    by (rule nix_store_run [OF assms(1)])
  have ok: "written = Ok ()" "walked = Ok ()"
    using run(4) assms(2) by auto
  have "inner ?h = duplex_writer H NAR_STREAM_BUFFER_SIZE"
    by (simp add: hcw_new_def)
  from write_bufs_whole [OF run(2) this, of "sha_update H"] ok
  have "nar_of H p = w_accepted (duplex_writer H NAR_STREAM_BUFFER_SIZE) @ concat (concat (map enc log))"
    by (simp add: written_nar_def run(3))
  with tree_walked [OF run(1) [unfolded ok(2)] assms(3, 4)] assms(5) show ?thesis
    by (simp add: nar_bytes_def duplex_ok_def)
qed

end
