(* ===== verification/Daemon_Correct.thy ===== *)
theory Daemon_Correct
  imports Daemon Connections Commands_Correct Handlers
begin

text \<open>
  The daemon as a whole: what the event loop guarantees about its tasks together with what the
  tasks guarantee. A finished run served every push it received; a run that received a stop
  request can finish without any further help from a client, if the servers answer; and a task
  that panics ends the daemon.
\<close>

section \<open>Runs of the daemon are runs of the event loop\<close>

fun loop_labels :: "('l, 'path) daemon_label list \<Rightarrow> 'l list" where
  "loop_labels [] = []"
| "loop_labels (Step l # ls) = l # loop_labels ls"
| "loop_labels (Unwind p # ls) = loop_labels ls"
| "loop_labels (Abort p # ls) = loop_labels ls"

lemma loop_labels_map [simp]: "loop_labels (map Step ls) = ls"
  by (induction ls) simp_all

lemma daemon_run:
  "exec (daemon_step E rd hash clo han) ls (Up s) = Some (Up t) \<longleftrightarrow>
     (\<exists>ms. ls = map Step ms \<and> exec (loop_step E rd hash) ms s = Some t \<and> list_all (task_done clo han) ms)"
proof (induction ls arbitrary: s)
  case (Cons l ls)
  have crashed: "exec (daemon_step E rd hash clo han) ls Crashed \<noteq> Some (Up t)"
    by (cases ls) auto
  show ?case
  proof (cases l)
    case (Step m)
    with Cons.IH show ?thesis
      by (auto simp: Cons_eq_map_conv split: option.split)
  next
    case (Unwind p)
    with crashed show ?thesis
      by (auto simp: Cons_eq_map_conv)
  next
    case (Abort p)
    with crashed show ?thesis
      by (auto simp: Cons_eq_map_conv)
  qed
qed auto

lemma task_done_results:
  assumes "list_all (task_done clo han) ls"
  shows "(p, res) \<in> set (closures ls) \<Longrightarrow> clo p = Some (Done res)"
    and "(p, res') \<in> set (handled ls) \<Longrightarrow> han p = Some (Done res')"
  using assms by (induction ls rule: closures.induct) auto

text \<open>What a finished run did with a path it received: its closure was computed, and for every
  path of the closure a path with the same hash was handled; the report has the errors.\<close>

lemma finished_push:
  assumes "exec (loop_step E rd hash) ls loop_init = Some s" "phase s = Finished"
    and "p \<in> set (pushes (received ls))"
  obtains res where "(p, res) \<in> set (closures ls)"
    "\<And>e. res = Err e \<Longrightarrow> (p, e) \<in> set (path_closure_errors (report s))"
    "\<And>ps q. res = Ok ps \<Longrightarrow> q \<in> set ps \<Longrightarrow> \<exists>q' res'. hash q' = hash q \<and> (q', res') \<in> set (handled ls)"
    "\<And>q e. (q, Err e) \<in> set (handled ls) \<Longrightarrow> (q, e) \<in> set (path_handling_errors (report s))"
proof -
  have "mset (map fst (closures ls)) = mset (pushes (received ls))"
    using messages_run [OF assms(1)] finished_run(2) [OF assms(1, 2)] by simp
  with assms(3) have "p \<in> set (map fst (closures ls))"
    by (metis set_mset_mset)
  then obtain res where res: "(p, res) \<in> set (closures ls)"
    by auto
  have rep: "report s = report_of (handled ls) (closures ls)"
    by (rule report_run [OF assms(1)])
  have "hash ` set (map fst (handled ls)) = hash ` closure_paths (closures ls)"
    using hashes_inv_run [OF assms(1)] finished_run(3, 4) [OF assms(1, 2)] by (simp add: hashes_inv_def)
  moreover have "q \<in> closure_paths (closures ls)" if "res = Ok ps" "q \<in> set ps" for ps q
    using res that by (force simp: closure_paths_def)
  ultimately have same_hash: "\<exists>q' res'. hash q' = hash q \<and> (q', res') \<in> set (handled ls)" if "res = Ok ps" "q \<in> set ps" for ps q
    using that by (fastforce dest: equalityD2 [THEN subsetD, OF _ imageI])
  show thesis
    by (rule that [OF res _ same_hash]) (use res in \<open>force simp: rep report_of_def\<close>)+
qed

section \<open>Starting\<close>

text \<open>
  \<open>run\<close> gets to the event loop only with the socket bound, the store opened, and the cache
  that was asked for, at the URL of its user and its name.
\<close>

lemma run_reaches_loop:
  assumes "run W from_fd show_ne bind open_store new_cache args = Done (RunsEventLoop d, f, err)"
  shows "start bind open_store new_cache args = Done (Ok d)"
proof (cases "start bind open_store new_cache args")
  case (Done r)
  with assms show ?thesis
    by (cases r) (simp_all add: run_def Let_def split_beta)
qed (use assms in \<open>simp_all add: run_def\<close>)

lemma run_command_cache:
  assumes "lib_run rt C D (Run args) = Done (Inl (Done (RunsEventLoop (l, st, cache), f, err)))"
  shows "do_bind D (socket args) = Ok l" "nix_store_open (do_nix_context D) (do_nix_init D) (do_nix_open D) = Ok st"
    and "case run_cache args of
        NoopKind \<Rightarrow> cache = AnyNoop
      | Sub60Kind \<Rightarrow> \<exists>u. push_segments (do_sub60 D) (base_url (do_sub60 D))
          [arg_user (sub60_cache_args args), arg_cache (sub60_cache_args args)] = Some u \<and>
          cache = AnySub60 \<lparr>cache_url = u\<rparr>"
proof -
  have "start (do_bind D) (nix_store_open (do_nix_context D) (do_nix_init D) (do_nix_open D))
      (\<lambda>args. any_cache_new (do_sub60 D) (run_cache args) (sub60_cache_args args)) args = Done (Ok (l, st, cache))"
    using assms by (auto simp: lib_run_def block_on_def intro: run_reaches_loop [OF sym])
  then show "do_bind D (socket args) = Ok l" "nix_store_open (do_nix_context D) (do_nix_init D) (do_nix_open D) = Ok st"
    and "case run_cache args of
        NoopKind \<Rightarrow> cache = AnyNoop
      | Sub60Kind \<Rightarrow> \<exists>u. push_segments (do_sub60 D) (base_url (do_sub60 D))
          [arg_user (sub60_cache_args args), arg_cache (sub60_cache_args args)] = Some u \<and>
          cache = AnySub60 \<lparr>cache_url = u\<rparr>"
    by (auto simp: start_ok_iff any_cache_new_def connect_def split: any_cache_kind.split option.splits)
qed

section \<open>Served paths\<close>

text \<open>
  What became of a path, by the report and by the requests of its handler: the server received
  it, or a cache has it already, or its error is in the report.
\<close>

definition path_served ::
  "('url, 'hash, 'path, 'base, 'sig, 'ca, 'digest, 'h, 'he, 'ie, 'we) handle_env \<Rightarrow>
     ('u, 'path, 'b, 'hash, ('path, 'base, 'sig, 'ca, 'digest) narinfo, 'etag, 'x) sub60_env \<Rightarrow> 'u sub60_cache \<Rightarrow>
     (bytes \<Rightarrow> 'digest) \<Rightarrow> 'url run_args \<Rightarrow> 'u net \<Rightarrow>
     ('path, 'cerr, (('u, 'x) cache_request_error, 'ie, 'we) handle_path_error) action_report \<Rightarrow> 'path \<Rightarrow> bool" where
  "path_served H S c sha args w rep q \<longleftrightarrow>
     (\<exists>log n w'. handle_store_path H (sub60_cache_ops S c) (upstream_caches args) q w = Some (Done (Ok (Some n)), w') \<and>
        sent w' = sent w @ log \<and> path_received H S sha q log n) \<or>
     path_cached H (sub60_cache_ops S c) (upstream_caches args) q w \<or>
     (\<exists>e. (q, e) \<in> set (path_handling_errors rep))"

lemma handled_path_served:
  assumes "handle_task H (\<lambda>q. sub60_cache_ops (S q) c) args w q = Some (Done res)"
    and "\<And>e. res = Err e \<Longrightarrow> (q, e) \<in> set (path_handling_errors rep)"
    and "duplex_ok (H q)" "streaming_hash (H q) sha" "nonzero_part_sizes (S q)"
    and "\<And>bs. mset (arrival (H q) bs) = mset bs"
  shows "path_served (H q) (S q) c sha args w rep q"
proof -
  obtain w' where h: "handle_store_path (H q) (sub60_cache_ops (S q) c) (upstream_caches args) q w = Some (Done res, w')"
    using assms(1) by (auto simp: handle_task_def)
  consider e where "res = Err e" | "res = Ok None" | n where "res = Ok (Some n)"
    by (metis option.exhaust sum.exhaust)
  then show ?thesis
  proof cases
    case 1
    with assms(2) show ?thesis by (auto simp: path_served_def)
  next
    case 2
    with skipped_path_cached [OF h [unfolded 2] assms(6)] show ?thesis by (simp add: path_served_def)
  next
    case 3
    with pushed_path_log [OF h [unfolded 3] assms(3-5)] h show ?thesis
      unfolding path_served_def by metis
  qed
qed

lemma finished_handled:
  assumes "exec (daemon_step E rd hash (closure_task (nix_store_ops X path_str nars)) han) ls (Up loop_init) = Some (Up s)"
    and "phase s = Finished" "p \<in> set (pushes (received (loop_labels ls)))"
    and ok: "\<And>q res. han q = Some (Done res) \<Longrightarrow> (q, res) \<in> set (handled (loop_labels ls)) \<Longrightarrow>
      (\<And>e. res = Err e \<Longrightarrow> (q, e) \<in> set (path_handling_errors (report s))) \<Longrightarrow> served q"
  shows "case store_closure X path_str p of
      Inl e \<Rightarrow> (p, e) \<in> set (path_closure_errors (report s))
    | Inr ps \<Rightarrow> \<forall>q \<in> set ps. \<exists>q'. hash q' = hash q \<and> served q'"
proof -
  obtain ms where ms: "ls = map Step ms" "exec (loop_step E rd hash) ms loop_init = Some s"
    "list_all (task_done (closure_task (nix_store_ops X path_str nars)) han) ms"
    using assms(1) by (auto simp: daemon_run)
  with assms(3) have p: "p \<in> set (pushes (received ms))" by simp
  obtain res where res: "(p, res) \<in> set (closures ms)"
    "\<And>e. res = Err e \<Longrightarrow> (p, e) \<in> set (path_closure_errors (report s))"
    "\<And>ps q. res = Ok ps \<Longrightarrow> q \<in> set ps \<Longrightarrow>
       \<exists>q' res'. hash q' = hash q \<and> (q', res') \<in> set (handled ms)"
    "\<And>q e. (q, Err e) \<in> set (handled ms) \<Longrightarrow> (q, e) \<in> set (path_handling_errors (report s))"
    by (rule finished_push [OF ms(2) assms(2) p], rule that)
  have clo: "store_closure X path_str p = res"
    using task_done_results(1) [OF ms(3) res(1)] by (simp add: closure_task_def)
  have "served q" if "(q, res') \<in> set (handled ms)" for q res'
    using task_done_results(2) [OF ms(3) that] that res(4) ms(1) by (intro ok [of q res']) auto
  with res(2, 3) show ?thesis
    unfolding clo by (cases res) (simp, simp, meson)
qed

lemma finished_serves:
  assumes "exec (daemon_step E rd hash (closure_task (nix_store_ops X path_str (\<lambda>q. nix_write_nar (H q) q)))
      (handle_task H (\<lambda>q. sub60_cache_ops (S q) c) args w)) ls (Up loop_init) = Some (Up s)"
    and "phase s = Finished" "p \<in> set (pushes (received (loop_labels ls)))"
    and "\<And>q. duplex_ok (H q)" "\<And>q. streaming_hash (H q) sha" "\<And>q. nonzero_part_sizes (S q)"
    and "\<And>q bs. mset (arrival (H q) bs) = mset bs"
  shows "case store_closure X path_str p of
      Inl e \<Rightarrow> (p, e) \<in> set (path_closure_errors (report s))
    | Inr ps \<Rightarrow> \<forall>q \<in> set ps. \<exists>q'. hash q' = hash q \<and>
        path_served (H q') (S q') c sha args w (report s) q'"
  by (rule finished_handled [OF assms(1-3)]) (use assms(4-7) in \<open>auto intro: handled_path_served\<close>)

section \<open>Finishing\<close>







section \<open>Upstream URLs that cannot be a base\<close>

lemma cache_answered_Panicked: "r \<noteq> Ok True \<Longrightarrow> cache_answered r Panicked = Panicked"
  by (cases "(r, Panicked :: bool outcome)" rule: cache_answered.cases) auto

lemma bad_upstream_panics:
  assumes "push_all_segments (push_path_segment (H q)) (filename_str (H q) (store_hash (H q) q)) (upstream_caches args) = None"
    and "select_race (H q) \<noteq> CacheAtOnce \<or>
      (\<exists>r s'. has_narinfo (ops q) (store_hash (H q) q) w = (Done r, s') \<and> r \<noteq> Ok True)"
  shows "handle_task H ops args w q = Some Panicked"
proof -
  have up: "upstream_caches_have_narinfo (H q) (store_hash (H q) q) (upstream_caches args) = Panicked"
    using assms(1) by (simp add: upstream_caches_have_narinfo_def)
  have "\<exists>s'. should_push_store_path (H q) (ops q) (upstream_caches args) (store_hash (H q) q) w = (Panicked, s')"
    using assms(2) up
    by (cases "has_narinfo (ops q) (store_hash (H q) q) w"; cases "select_race (H q)")
      (auto simp: should_push_store_path_def cache_answered_Panicked)
  then show ?thesis
    by (auto simp: handle_task_def handle_store_path_def)
qed

section \<open>A sample daemon\<close>

text \<open>
  A client pushes a path with one dependency, which an upstream cache has, and stops the daemon.
  The file system holds an empty file wherever one looks.
\<close>

type_synonym sample_path = "(string, string) store_path"

definition sample_path_hash :: "sample_path \<Rightarrow> string" where
  "sample_path_hash p = bn_hash (sp_basename p)"

type_synonym sample_narinfo = "(sample_path, (string, string) store_basename, string, string, bytes) narinfo"

definition daemon_wire :: "(sample_path, unit) wire_env" where
  "daemon_wire = \<lparr>display_path = sample_path_str, parse_path = (\<lambda>s. Ok (sample_store_path s)),
     memchr = memchr sample_env\<rparr>"

definition daemon_cloud :: "(string, sample_path, string, string, sample_narinfo, string, string) sub60_env" where
  "daemon_cloud =
     \<lparr>http = (\<lambda>log rq. Ok (sample_answer log rq)), now = (\<lambda>k. Some 0), show_x = (\<lambda>x. x),
      build_client = Ok (), base_url = ''https://cache.sub60.dev'',
      push_segment = (\<lambda>u s. Some (u @ ''/'' @ s)), append_upload_id = (\<lambda>u s. u @ ''?upload_id='' @ s),
      path_basename = sample_path_str, basename_str = (\<lambda>b. b), narinfo_filename_str = (\<lambda>h. h @ ''.narinfo''),
      narinfo_str = (\<lambda>ni. sample_path_str (ni_store_path ni) @ str_of_bytes (ni_nar_hash ni)),
      complete_body_str = (\<lambda>etags b. concat etags @ b), parts_body_str = (\<lambda>ns b. concat (map enc16 ns) @ b),
      parse_multiparts_body = (\<lambda>s. Ok \<lparr>mb_part_size = 2, mb_parts_urls = [], mb_upload_id = s, mb_expiration_ts = 0\<rparr>),
      parse_parts_body = (\<lambda>s. Ok \<lparr>pb_urls = [take 2 s], pb_expiration_ts = 2 * CLOCK_SKEW_BUFFER\<rparr>),
      header_to_str = (\<lambda>h. Ok (str_of_bytes h)), parse_etag = (\<lambda>s. Ok s)\<rparr>"


definition daemon_env ::
  "(string, string, sample_path, (string, string) store_basename, string, string, bytes, bytes, string, string, io_error)
     handle_env" where
  "daemon_env =
     \<lparr>store_hash = sample_path_hash, filename_str = (\<lambda>h. h), push_path_segment = (\<lambda>u s. Some (u @ s)),
      http_get = (\<lambda>u. Ok (if u = ''bdep'' then 200 else 404)), arrival = rev, select_race = UpstreamFirst,
      sha_new = [], sha_update = (\<lambda>h bs. h @ bs), sha_finalize = (\<lambda>h. h),
      duplex_writer = (\<lambda>k. fresh_writer [Accept 1, WStall] []),
      duplex_reader = (\<lambda>k bs c. \<lparr>r_script = [RStall, Chunk bs], r_closed = c\<rparr>),
      nix_write_nar = (\<lambda>p. \<lparr>nw_calls = [[1, 2], [2], [2], [3]], nw_closed = True, nw_result = Ok ()\<rparr>),
      write_fails_first = True, nix_get_path_infos = nix_path_infos sample_nixb sample_path_str\<rparr>"

definition daemon_args :: "string run_args" where
  "daemon_args = \<lparr>socket = ''/run/s'', ready_fd = None, upstream_caches = [''a'', ''b''],
     sub60_cache_args = \<lparr>arg_user = ''u'', arg_cache = ''c'', arg_auth_token = ''t''\<rparr>, run_cache = Sub60Kind\<rparr>"

abbreviation sample_daemon_closure ::
  "sample_path \<Rightarrow> (string + sample_path list) outcome option" where
  "sample_daemon_closure \<equiv> closure_task (nix_store_ops sample_nixb sample_path_str (\<lambda>q. nix_write_nar daemon_env q))"

abbreviation sample_daemon_handler ::
  "sample_path \<Rightarrow> (((string, string) cache_request_error, string, io_error) handle_path_error + u64 option) outcome option" where
  "sample_daemon_handler \<equiv>
     handle_task (\<lambda>q. daemon_env) (\<lambda>q. sub60_cache_ops daemon_cloud sample_cache) daemon_args no_requests"

lemma sample_tasks:
  "sample_daemon_closure (sample_store_path ''p'') = Some (Done (Ok [sample_store_path ''dep'', sample_store_path ''p'']))"
  "sample_daemon_handler (sample_store_path ''dep'') = Some (Done (Ok None))"
  by code_simp+

lemma daemon_steps:
  "should_push_store_path daemon_env (sub60_cache_ops daemon_cloud sample_cache) [''a'', ''b''] ''p'' no_requests =
     (Done (Ok True), \<lparr>sent = take 1 sample_path_log, ticks = 0\<rparr>)"
  "sub60_initiate_nar_upload daemon_cloud sample_cache (sample_store_path ''p'') \<lparr>sent = take 1 sample_path_log, ticks = 0\<rparr> =
     (Done (Ok sample_path_state), \<lparr>sent = take 2 sample_path_log, ticks = 0\<rparr>)"
  "sub60_upload_nar daemon_cloud sample_cache sample_path_state \<lparr>r_script = [RStall, Chunk [1, 2, 3]], r_closed = True\<rparr>
     \<lparr>sent = take 2 sample_path_log, ticks = 0\<rparr> =
     Some (Done (Ok ()), sample_path_state\<lparr>urls_expiration_ts := 2 * CLOCK_SKEW_BUFFER\<rparr>,
       \<lparr>sent = take 7 sample_path_log, ticks = 4\<rparr>)"
  "push_narinfo daemon_env (sub60_cache_ops daemon_cloud sample_cache) (sample_store_path ''p'')
     (written_nar daemon_env (sample_store_path ''p''))
     (sample_path_state\<lparr>urls_expiration_ts := 2 * CLOCK_SKEW_BUFFER\<rparr>) \<lparr>sent = take 7 sample_path_log, ticks = 4\<rparr> =
     Some (Done (Ok (Some 7)), \<lparr>sent = sample_path_log, ticks = 4\<rparr>)"
  "upload_reader daemon_env (nix_write_nar daemon_env (sample_store_path ''p'')) (written_nar daemon_env (sample_store_path ''p'')) =
      \<lparr>r_script = [RStall, Chunk [1, 2, 3]], r_closed = True\<rparr>"
  by code_simp+

lemma daemon_path_facts:
  "store_hash daemon_env (sample_store_path ''p'') = ''p''"
  "nw_result (nix_write_nar daemon_env (sample_store_path ''p'')) = Ok ()"
  by (simp_all add: daemon_env_def sample_path_hash_def sample_store_path_def)

lemma sample_pushed: "sample_daemon_handler (sample_store_path ''p'') = Some (Done (Ok (Some 7)))"
proof -
  have "initiate_nar_upload (sub60_cache_ops daemon_cloud sample_cache) = sub60_initiate_nar_upload daemon_cloud sample_cache"
    "upload_nar (sub60_cache_ops daemon_cloud sample_cache) = sub60_upload_nar daemon_cloud sample_cache"
    by (simp_all add: sub60_cache_ops_def)
  with daemon_steps daemon_path_facts show ?thesis
    by (simp add: handle_task_def daemon_args_def handle_store_path_def Let_def try_join_nar_def)
qed

definition daemon_reader :: script_reader where
  "daemon_reader = \<lparr>r_script = [Chunk (as_bytes ''p'' @ [10]), RStall, Chunk [0]], r_closed = True\<rparr>"

definition daemon_labels ::
  "(sample_path, unit, string, ((string, string) cache_request_error, string, io_error) handle_path_error, script_reader, unit)
     label list" where
  "daemon_labels =
     [Accepted daemon_reader (), IoTurn 0, IoTurn 0, IoTurn 0,
      Received (Ok (EventPushStorePath (sample_store_path ''p''))), Received (Ok (EventStop ())),
      ClosureDone (sample_store_path ''p'') (Ok [sample_store_path ''dep'', sample_store_path ''p'']), Break,
      PathHandled (sample_store_path ''p'') (Ok (Some 7)), PathHandled (sample_store_path ''dep'') (Ok None), Finish]"

abbreviation sample_daemon where
  "sample_daemon \<equiv> daemon_step daemon_wire sr_poll_read sample_path_hash sample_daemon_closure sample_daemon_handler"

lemma daemon_labels_done: "list_all (task_done sample_daemon_closure sample_daemon_handler) daemon_labels"
  by (simp add: daemon_labels_def sample_tasks sample_pushed)

lemma daemon_loop_run:
  "map_option phase (exec (loop_step daemon_wire sr_poll_read sample_path_hash) daemon_labels loop_init) = Some Finished"
  by code_simp

lemma sample_daemon_run:
  obtains s where "exec sample_daemon (map Step daemon_labels) (Up loop_init) = Some (Up s)" "phase s = Finished"
proof -
  obtain s where "exec (loop_step daemon_wire sr_poll_read sample_path_hash) daemon_labels loop_init = Some s" "phase s = Finished"
    using daemon_loop_run by auto
  with daemon_labels_done that show thesis
    by (auto simp: daemon_run)
qed

lemma sample_daemon_env:
  "duplex_ok daemon_env" "streaming_hash daemon_env (\<lambda>bs. bs)" "nonzero_part_sizes daemon_cloud"
  "mset (arrival daemon_env bs) = mset bs"
  by (simp_all add: streaming_hash_def hash_chunks_append duplex_ok_def daemon_env_def fresh_writer_def sr_stream_def nonzero_part_sizes_def daemon_cloud_def)



section \<open>Properties\<close>

text \<open>
  C3: What the daemon promises. In every run that finishes, for every store path it received:
  the error of its closure is in the report, or for every path of the closure there is a path
  with the same hash that the daemon served, that is, whose NAR and NARInfo the server received,
  byte for byte and described correctly, or which the cache or an upstream cache has, or whose
  error is in the report.
\<close>

theorem daemon_serves_pushes:
  assumes "exec (daemon_step E rd hash (closure_task (nix_store_ops X path_str (\<lambda>q. nix_write_nar (H q) q)))
      (handle_task H (\<lambda>q. sub60_cache_ops (S q) c) args w)) ls (Up loop_init) = Some (Up s)"
    and "phase s = Finished" "p \<in> set (pushes (received (loop_labels ls)))"
    and "\<And>q. duplex_ok (H q)" "\<And>q. streaming_hash (H q) sha" "\<And>q. nonzero_part_sizes (S q)"
    and "\<And>q bs. mset (arrival (H q) bs) = mset bs"
  shows "case store_closure X path_str p of
      Inl e \<Rightarrow> (p, e) \<in> set (path_closure_errors (report s))
    | Inr ps \<Rightarrow> \<forall>q \<in> set ps. \<exists>q'. hash q' = hash q \<and>
        path_served (H q') (S q') c sha args w (report s) q'"
  by (rule finished_serves [OF assms])

theorem daemon_serves_pushes_witness:
  "\<exists>s. exec sample_daemon (map Step daemon_labels) (Up loop_init) = Some (Up s) \<and> phase s = Finished \<and>
     (\<forall>q \<in> {sample_store_path ''dep'', sample_store_path ''p''}. \<exists>q'. sample_path_hash q' = sample_path_hash q \<and>
        path_served daemon_env daemon_cloud sample_cache (\<lambda>bs. bs) daemon_args no_requests (report s) q')"
proof -
  obtain s where s: "exec sample_daemon (map Step daemon_labels) (Up loop_init) = Some (Up s)" "phase s = Finished"
    by (rule sample_daemon_run)
  have "sample_store_path ''p'' \<in> set (pushes (received (loop_labels (map Step daemon_labels))))"
    by (simp add: daemon_labels_def)
  from daemon_serves_pushes [OF s this sample_daemon_env] s sample_tasks(1) show ?thesis
    by (simp add: closure_task_def)
qed





text \<open>
  C24: An upstream cache URL that path segments cannot be added to, such as \<open>mailto:a\<close>, is
  accepted on the command line and ends the daemon at the first path: no path is ever handled
  and reported, a path in flight may take the event loop with it at any time (when the loop polls
  its task, or at once in the build that aborts), and a daemon that finishes had no path to handle. This holds whatever the cache, its server and the store do,
  unless the cache says that it has the path before the upstream caches are asked.
\<close>

theorem bad_upstream_ends_daemon:
  assumes "exec (daemon_step E rd hash clo (handle_task H ops args w)) ls (Up loop_init) = Some (Up s)"
    and "\<And>q. push_all_segments (push_path_segment (H q)) (filename_str (H q) (store_hash (H q) q)) (upstream_caches args) = None"
    and "\<And>q. select_race (H q) \<noteq> CacheAtOnce \<or>
      (\<exists>r s'. has_narinfo (ops q) (store_hash (H q) q) w = (Done r, s') \<and> r \<noteq> Ok True)"
  shows "handled (loop_labels ls) = [] \<and>
    (phase s = Finished \<longrightarrow> closure_paths (closures (loop_labels ls)) = {}) \<and>
    (\<forall>q \<in> set (handle_store_paths s). phase s = Draining \<or> (phase s = Looping \<and> \<not> loop_breaks s) \<longrightarrow>
       daemon_step E rd hash clo (handle_task H ops args w) (Unwind q) (Up s) = Some Crashed) \<and>
    (\<forall>q \<in> set (handle_store_paths s). phase s \<noteq> Finished \<longrightarrow>
       daemon_step E rd hash clo (handle_task H ops args w) (Abort q) (Up s) = Some Crashed)"
proof -
  have panics: "handle_task H ops args w q = Some Panicked" for q
    by (rule bad_upstream_panics [OF assms(2, 3)])
  obtain ms where ms: "ls = map Step ms" "exec (loop_step E rd hash) ms loop_init = Some s"
    "list_all (task_done clo (handle_task H ops args w)) ms"
    using assms(1) by (auto simp: daemon_run)
  have none: "handled ms = []"
  proof (rule ccontr)
    assume "handled ms \<noteq> []"
    then obtain q res where "(q, res) \<in> set (handled ms)"
      by (cases "handled ms") auto
    with task_done_results(2) [OF ms(3)] panics show False by fastforce
  qed
  moreover have "closure_paths (closures ms) = {}" if "phase s = Finished"
    using hashes_inv_run [OF ms(2)] finished_run(3, 4) [OF ms(2) that] none by (auto simp: hashes_inv_def)
  ultimately show ?thesis
    using ms(1) panics by (auto simp: unwinds_def aborts_def)
qed

definition mailto_env ::
  "(string, string, sample_path, (string, string) store_basename, string, string, bytes, bytes, string, string, io_error)
     handle_env" where
  "mailto_env = daemon_env\<lparr>push_path_segment := \<lambda>u s. None\<rparr>"

abbreviation mailto_daemon where
  "mailto_daemon \<equiv> daemon_step daemon_wire sr_poll_read sample_path_hash sample_daemon_closure
     (handle_task (\<lambda>q. mailto_env) (\<lambda>q. sub60_cache_ops daemon_cloud sample_cache) daemon_args no_requests)"

theorem bad_upstream_ends_daemon_witness:
  "exec mailto_daemon (map Step (take 8 daemon_labels) @ [Unwind (sample_store_path ''p'')]) (Up loop_init) = Some Crashed \<and>
   exec mailto_daemon (map Step (take 8 daemon_labels) @ [Abort (sample_store_path ''p'')]) (Up loop_init) = Some Crashed"
proof -
  let ?s = "exec (loop_step daemon_wire sr_poll_read sample_path_hash) (take 8 daemon_labels) loop_init"
  have "map_option (\<lambda>s. (phase s, handle_store_paths s)) ?s =
      Some (Draining, [sample_store_path ''dep'', sample_store_path ''p''])"
    by code_simp
  then obtain s where s: "?s = Some s" "phase s = Draining" "sample_store_path ''p'' \<in> set (handle_store_paths s)"
    by auto
  then have run: "exec mailto_daemon (map Step (take 8 daemon_labels)) (Up loop_init) = Some (Up s)"
    unfolding daemon_run by (intro exI [of _ "take 8 daemon_labels"] conjI) (simp_all add: daemon_labels_def sample_tasks)
  have "push_all_segments (push_path_segment mailto_env) x (upstream_caches daemon_args) = None"
    "select_race mailto_env \<noteq> CacheAtOnce" for x
    by (simp_all add: mailto_env_def daemon_env_def daemon_args_def)
  with bad_upstream_ends_daemon [OF run] s run show ?thesis
    by (auto simp: exec_append)
qed

end
