(* ===== verification/Shared_Server.thy ===== *)
theory Shared_Server
  imports Daemon_Correct
begin

text \<open>
  One server for all handlers. The handlers of different paths run concurrently and their
  requests reach the cache interleaved. A trace lists the requests of all handlers in the order
  in which the server saw them, each with the handler that made it and with its answer; the
  server answers by any function of all the requests before. What a handler sees of the trace
  is its own part, and it is run against the answers of that part.
\<close>

section \<open>Traces\<close>

type_synonym ('path, 'url, 'x) trace = "('path \<times> 'url request \<times> ('x + 'x response)) list"

definition own :: "'path \<Rightarrow> ('path, 'url, 'x) trace \<Rightarrow> ('url request \<times> ('x + 'x response)) list" where
  "own q T = map snd (filter (\<lambda>e. fst e = q) T)"

definition server_log :: "('path, 'url, 'x) trace \<Rightarrow> 'url request list" where
  "server_log T = map (fst \<circ> snd) T"

definition server_answers ::
  "('url request list \<Rightarrow> 'url request \<Rightarrow> 'x + 'x response) \<Rightarrow> ('path, 'url, 'x) trace \<Rightarrow> bool" where
  "server_answers srv T \<longleftrightarrow>
     (\<forall>i < length T. snd (snd (T ! i)) = srv (server_log (take i T)) (fst (snd (T ! i))))"

text \<open>The answers of the trace to the handler of \<open>q\<close>, by the number of requests it has made.\<close>

definition replay ::
  "('path, 'url, 'x) trace \<Rightarrow> 'path \<Rightarrow> ('url request list \<Rightarrow> 'url request \<Rightarrow> 'x + 'x response) \<Rightarrow>
     'url request list \<Rightarrow> 'url request \<Rightarrow> 'x + 'x response" where
  "replay T q other log rq = (if length log < length (own q T) then snd (own q T ! length log) else other log rq)"

definition via_trace ::
  "('path, 'url, 'x) trace \<Rightarrow> 'path \<Rightarrow> ('url, 'path, 'base, 'hash, 'narinfo, 'etag, 'x) sub60_env \<Rightarrow>
     ('url, 'path, 'base, 'hash, 'narinfo, 'etag, 'x) sub60_env" where
  "via_trace T q S = S\<lparr>http := replay T q (http S)\<rparr>"

definition net_init :: "'url net" where
  "net_init = \<lparr>sent = [], ticks = 0\<rparr>"

lemma via_trace_simps [simp]:
  "narinfo_str (via_trace T q S) = narinfo_str S" "basename_str (via_trace T q S) = basename_str S"
  "path_basename (via_trace T q S) = path_basename S" "narinfo_url (via_trace T q S) c h = narinfo_url S c h"
  "nonzero_part_sizes (via_trace T q S) = nonzero_part_sizes S"
proof -
  have "push_segments (S\<lparr>http := f\<rparr>) u ss = push_segments S u ss" for f u ss
    by (induction ss arbitrary: u) (auto split: option.split)
  then show "narinfo_url (via_trace T q S) c h = narinfo_url S c h"
    by (simp only: narinfo_url_def via_trace_def) simp
qed (simp_all add: via_trace_def nonzero_part_sizes_def)

lemma own_subseq: "subseq (map fst (own q T)) (server_log T)"
proof -
  have "subseq (map (fst \<circ> snd) (filter (\<lambda>e. fst e = q) T)) (map (fst \<circ> snd) T)"
    by (intro subseq_map subseq_filter_left)
  then show ?thesis
    by (simp add: own_def server_log_def)
qed

lemma own_answered:
  assumes "server_answers srv T" "(rq, a) \<in> set (own q T)"
  shows "\<exists>i < length T. T ! i = (q, rq, a) \<and> srv (server_log (take i T)) rq = a"
proof -
  have "(q, rq, a) \<in> set T"
    using assms(2) by (auto simp: own_def)
  then obtain i where "i < length T" "T ! i = (q, rq, a)"
    by (auto simp: in_set_conv_nth)
  with assms(1) show ?thesis
    unfolding server_answers_def by (intro exI [of _ i]) force
qed

section \<open>Handlers on a shared server\<close>

text \<open>
  The handlers that ended without an error made exactly the requests the trace has for them. The
  exception is a handler that learnt from an upstream cache that it has the path before the cache
  answered: the request to the cache is dropped then, and may never have been sent. Of a handler
  that failed nothing is asked, because the requests of an upload that was cancelled are not known.
\<close>

definition handlers_sent ::
  "('path, 'u, 'x) trace \<Rightarrow>
     ('path \<Rightarrow> ('url, 'hash, 'path, 'base, 'sig, 'ca, 'digest, 'h, 'he, 'ie, 'we) handle_env) \<Rightarrow>
     ('path \<Rightarrow> ('u, 'path, 'b, 'hash, ('path, 'base, 'sig, 'ca, 'digest) narinfo, 'etag, 'x) sub60_env) \<Rightarrow>
     'u sub60_cache \<Rightarrow> 'url run_args \<Rightarrow> 'path set \<Rightarrow> bool" where
  "handlers_sent T H S c args qs \<longleftrightarrow>
     (\<forall>q \<in> qs. \<forall>r w'.
        handle_store_path (H q) (sub60_cache_ops (via_trace T q (S q)) c) (upstream_caches args) q net_init =
          Some (Done (Ok r), w') \<longrightarrow>
        sent w' = map fst (own q T) \<or>
        r = None \<and> own q T = [] \<and> select_race (H q) = UpstreamFirst \<and>
          upstream_caches_have_narinfo (H q) (store_hash (H q) q) (upstream_caches args) = Done True)"

text \<open>What the shared server, an upstream cache or the report has of a path.\<close>

definition path_at_server ::
  "('u request list \<Rightarrow> 'u request \<Rightarrow> 'x + 'x response) \<Rightarrow> ('path, 'u, 'x) trace \<Rightarrow>
     ('url, 'hash, 'path, 'base, 'sig, 'ca, 'digest, 'h, 'he, 'ie, 'we) handle_env \<Rightarrow>
     ('u, 'path, 'b, 'hash, ('path, 'base, 'sig, 'ca, 'digest) narinfo, 'etag, 'x) sub60_env \<Rightarrow>
     (bytes \<Rightarrow> 'digest) \<Rightarrow> 'url list \<Rightarrow> ('path, 'cerr, 'herr) action_report \<Rightarrow> 'path \<Rightarrow> bool" where
  "path_at_server srv T H S sha ups rep q \<longleftrightarrow>
     (\<exists>log n. subseq log (server_log T) \<and> log = map fst (own q T) \<and> path_received H S sha q log n) \<or>
     (\<exists>i u r. i < length T \<and> T ! i = (q, request HEAD u [], Ok r) \<and>
        srv (server_log (take i T)) (request HEAD u []) = Ok r \<and> resp_status r = 200) \<or>
     (\<exists>urls. push_all_segments (push_path_segment H) (filename_str H (store_hash H q)) ups = Some urls \<and>
        (\<exists>u \<in> set urls. http_get H u = Ok 200)) \<or>
     (\<exists>e. (q, e) \<in> set (path_handling_errors rep))"

lemma has_narinfo_hit:
  assumes "sub60_has_narinfo (via_trace T q S) c h net_init = (Done (Ok True), w')" "sent w' = map fst (own q T)"
  obtains u r where "(request HEAD u [], Ok r) \<in> set (own q T)" "resp_status r = 200"
proof -
  obtain u r where u: "http (via_trace T q S) [] (request HEAD u []) = Ok r" "resp_status r = 200"
    "sent w' = [request HEAD u []]"
    using assms(1)
    by (auto simp: sub60_has_narinfo_def send_def Let_def net_init_def split: option.splits sum.splits if_splits)
  with assms(2) obtain a where own: "own q T = [(request HEAD u [], a)]"
    by auto
  with u(1) have "a = Ok r"
    by (simp add: via_trace_def replay_def)
  with own u(2) show thesis
    by (intro that [of u r]) simp_all
qed

lemma handled_at_server:
  assumes "handle_task H (\<lambda>q. sub60_cache_ops (via_trace T q (S q)) c) args net_init q = Some (Done res)"
    and "\<And>e. res = Err e \<Longrightarrow> (q, e) \<in> set (path_handling_errors rep)"
    and "duplex_ok (H q)" "streaming_hash (H q) sha" "nonzero_part_sizes (S q)"
    and "\<And>bs. mset (arrival (H q) bs) = mset bs"
    and "server_answers srv T" "handlers_sent T H S c args {q}"
  shows "path_at_server srv T (H q) (S q) sha (upstream_caches args) rep q"
proof -
  let ?ops = "sub60_cache_ops (via_trace T q (S q)) c"
  obtain w' where h: "handle_store_path (H q) ?ops (upstream_caches args) q net_init = Some (Done res, w')"
    using assms(1) by (auto simp: handle_task_def)
  consider e where "res = Err e" | "res = Ok None" | n where "res = Ok (Some n)"
    by (metis option.exhaust sum.exhaust)
  then show ?thesis
  proof cases
    case 1
    with assms(2) show ?thesis by (auto simp: path_at_server_def)
  next
    case 2
    from assms(8) h 2 consider (sent) "sent w' = map fst (own q T)"
      | (dropped) "upstream_caches_have_narinfo (H q) (store_hash (H q) q) (upstream_caches args) = Done True"
      by (auto simp: handlers_sent_def)
    then show ?thesis
    proof cases
      case dropped
      then show ?thesis
        using upstream_hit [OF _ assms(6)] by (auto simp: path_at_server_def)
    next
      case w': sent
      from skipped_path_cached [OF h [unfolded 2] assms(6)] show ?thesis
      proof (unfold path_cached_def, elim disjE exE)
        fix s'
        assume hit: "has_narinfo ?ops (store_hash (H q) q) net_init = (Done (Ok True), s')"
        have "s' = w'"
          using should_push_state [of "H q" ?ops "upstream_caches args" "store_hash (H q) q" net_init]
            skipped_should_push [OF h [unfolded 2]] hit by simp
        with hit w' obtain u r where "(request HEAD u [], Ok r) \<in> set (own q T)" "resp_status r = 200"
          by (auto simp: sub60_cache_ops_def elim: has_narinfo_hit)
        with own_answered [OF assms(7)] show ?thesis
          unfolding path_at_server_def by meson
      qed (auto simp: path_at_server_def)
    qed
  next
    case 3
    have w': "sent w' = map fst (own q T)"
      using assms(8) h 3 by (auto simp: handlers_sent_def)
    obtain log where "sent w' = sent net_init @ log" "path_received (H q) (via_trace T q (S q)) sha q log n"
      by (rule pushed_path_log [OF h [unfolded 3] assms(3, 4)]) (use assms(5) in simp_all)
    with w' have "path_received (H q) (S q) sha q (map fst (own q T)) n"
      by (simp add: net_init_def path_received_def)
    with own_subseq [of q T] show ?thesis
      unfolding path_at_server_def by blast
  qed
qed

lemma finished_at_server:
  assumes "exec (daemon_step E rd hash (closure_task (nix_store_ops X path_str (\<lambda>q. nix_write_nar (H q) q)))
      (handle_task H (\<lambda>q. sub60_cache_ops (via_trace T q (S q)) c) args net_init)) ls (Up loop_init) = Some (Up s)"
    and "phase s = Finished" "p \<in> set (pushes (received (loop_labels ls)))"
    and "server_answers srv T" "handlers_sent T H S c args (fst ` set (handled (loop_labels ls)))"
    and "\<And>q. duplex_ok (H q)" "\<And>q. streaming_hash (H q) sha" "\<And>q. nonzero_part_sizes (S q)"
    and "\<And>q bs. mset (arrival (H q) bs) = mset bs"
  shows "case store_closure X path_str p of
      Inl e \<Rightarrow> (p, e) \<in> set (path_closure_errors (report s))
    | Inr ps \<Rightarrow> \<forall>q \<in> set ps. \<exists>q'. hash q' = hash q \<and>
        path_at_server srv T (H q') (S q') sha (upstream_caches args) (report s) q'"
proof (rule finished_handled [OF assms(1-3)])
  fix q res
  assume "handle_task H (\<lambda>q. sub60_cache_ops (via_trace T q (S q)) c) args net_init q = Some (Done res)"
    "(q, res) \<in> set (handled (loop_labels ls))"
    "\<And>e. res = Err e \<Longrightarrow> (q, e) \<in> set (path_handling_errors (report s))"
  with assms(4-9) show "path_at_server srv T (H q) (S q) sha (upstream_caches args) (report s) q"
    by (intro handled_at_server) (auto simp: handlers_sent_def)
qed

section \<open>A sample run\<close>

text \<open>The trace of a server that sees the given requests in this order.\<close>

definition trace_of ::
  "('url request list \<Rightarrow> 'url request \<Rightarrow> 'x + 'x response) \<Rightarrow> ('path \<times> 'url request) list \<Rightarrow> ('path, 'url, 'x) trace" where
  "trace_of srv xs = map (\<lambda>i. (fst (xs ! i), snd (xs ! i), srv (map snd (take i xs)) (snd (xs ! i)))) [0..<length xs]"

lemma server_log_trace_of: "server_log (trace_of srv xs) = map snd xs"
  by (rule nth_equalityI) (simp_all add: server_log_def trace_of_def)

lemma server_answers_trace_of: "server_answers srv (trace_of srv xs)"
  unfolding server_answers_def
proof (intro allI impI)
  fix i assume i: "i < length (trace_of srv xs)"
  have "server_log (take i (trace_of srv xs)) = map snd (take i xs)"
    using server_log_trace_of [of srv xs] by (metis server_log_def take_map)
  with i show "snd (snd (trace_of srv xs ! i)) =
      srv (server_log (take i (trace_of srv xs))) (fst (snd (trace_of srv xs ! i)))"
    by (simp add: trace_of_def)
qed

text \<open>
  The pushed path and its dependency are handled concurrently: the server sees the question for
  the dependency after that for the path, so the tags it gives out afterwards are not those it
  would give to one handler alone.
\<close>

definition path_requests :: "string request list" where
  "path_requests = sample_path_log[6 := request POST ''u/nar-multiparts/p/complete'' (as_bytes ''46p'')]"

definition shared_requests :: "(sample_path \<times> string request) list" where
  "shared_requests =
     (sample_store_path ''p'', hd path_requests) # (sample_store_path ''dep'', request HEAD ''u/dep.narinfo'' []) #
     map (Pair (sample_store_path ''p'')) (tl path_requests)"

definition shared_srv :: "string request list \<Rightarrow> string request \<Rightarrow> string + string response" where
  "shared_srv log rq = Ok (sample_answer log rq)"

definition shared_trace :: "(sample_path, string, string) trace" where
  "shared_trace = trace_of shared_srv shared_requests"

abbreviation shared_cloud ::
  "sample_path \<Rightarrow> (string, sample_path, string, string, sample_narinfo, string, string) sub60_env" where
  "shared_cloud q \<equiv> via_trace shared_trace q daemon_cloud"

lemma shared_own:
  "map fst (own (sample_store_path ''p'') shared_trace) = path_requests"
  "map fst (own (sample_store_path ''dep'') shared_trace) = [request HEAD ''u/dep.narinfo'' []]"
  by code_simp+

lemma shared_dep:
  "handle_store_path daemon_env (sub60_cache_ops (shared_cloud (sample_store_path ''dep'')) sample_cache)
     (upstream_caches daemon_args) (sample_store_path ''dep'') net_init =
     Some (Done (Ok None), \<lparr>sent = [request HEAD ''u/dep.narinfo'' []], ticks = 0\<rparr>)"
  by code_simp

lemma shared_steps:
  "should_push_store_path daemon_env (sub60_cache_ops (shared_cloud (sample_store_path ''p'')) sample_cache)
     [''a'', ''b''] ''p'' net_init = (Done (Ok True), \<lparr>sent = take 1 path_requests, ticks = 0\<rparr>)"
  "sub60_initiate_nar_upload (shared_cloud (sample_store_path ''p'')) sample_cache (sample_store_path ''p'')
     \<lparr>sent = take 1 path_requests, ticks = 0\<rparr> =
     (Done (Ok sample_path_state), \<lparr>sent = take 2 path_requests, ticks = 0\<rparr>)"
  "sub60_upload_nar (shared_cloud (sample_store_path ''p'')) sample_cache sample_path_state
     \<lparr>r_script = [RStall, Chunk [1, 2, 3]], r_closed = True\<rparr> \<lparr>sent = take 2 path_requests, ticks = 0\<rparr> =
     Some (Done (Ok ()), sample_path_state\<lparr>urls_expiration_ts := 2 * CLOCK_SKEW_BUFFER\<rparr>,
       \<lparr>sent = take 7 path_requests, ticks = 4\<rparr>)"
  "push_narinfo daemon_env (sub60_cache_ops (shared_cloud (sample_store_path ''p'')) sample_cache) (sample_store_path ''p'')
     (written_nar daemon_env (sample_store_path ''p''))
     (sample_path_state\<lparr>urls_expiration_ts := 2 * CLOCK_SKEW_BUFFER\<rparr>) \<lparr>sent = take 7 path_requests, ticks = 4\<rparr> =
     Some (Done (Ok (Some 7)), \<lparr>sent = path_requests, ticks = 4\<rparr>)"
  by code_simp+

lemma shared_path:
  "handle_store_path daemon_env (sub60_cache_ops (shared_cloud (sample_store_path ''p'')) sample_cache)
     (upstream_caches daemon_args) (sample_store_path ''p'') net_init =
     Some (Done (Ok (Some 7)), \<lparr>sent = path_requests, ticks = 4\<rparr>)"
proof -
  have "initiate_nar_upload (sub60_cache_ops (shared_cloud q) sample_cache) = sub60_initiate_nar_upload (shared_cloud q) sample_cache"
    "upload_nar (sub60_cache_ops (shared_cloud q) sample_cache) = sub60_upload_nar (shared_cloud q) sample_cache" for q
    by (simp_all add: sub60_cache_ops_def)
  with shared_steps daemon_steps(5) daemon_path_facts show ?thesis
    by (simp add: daemon_args_def handle_store_path_def Let_def try_join_nar_def)
qed

abbreviation shared_daemon where
  "shared_daemon \<equiv> daemon_step daemon_wire sr_poll_read sample_path_hash sample_daemon_closure
     (handle_task (\<lambda>q. daemon_env) (\<lambda>q. sub60_cache_ops (shared_cloud q) sample_cache) daemon_args net_init)"

lemma shared_run:
  obtains s where "exec shared_daemon (map Step daemon_labels) (Up loop_init) = Some (Up s)" "phase s = Finished"
proof -
  obtain s where "exec (loop_step daemon_wire sr_poll_read sample_path_hash) daemon_labels loop_init = Some s" "phase s = Finished"
    using daemon_loop_run by auto
  moreover have "list_all (task_done sample_daemon_closure (handle_task (\<lambda>q. daemon_env)
      (\<lambda>q. sub60_cache_ops (shared_cloud q) sample_cache) daemon_args net_init)) daemon_labels"
    by (simp add: daemon_labels_def sample_tasks(1) handle_task_def shared_path shared_dep)
  ultimately show thesis
    using that by (auto simp: daemon_run)
qed

section \<open>Properties\<close>

text \<open>
  C2: The daemon keeps its promise on one server shared by all its handlers. In a run that
  finishes, whatever the order in which the requests of concurrent handlers reach the server and
  however it answers, for every store path received: the error of its closure is in the report,
  or for every path of the closure there is one with the same hash whose requests, in order
  among those of the other handlers in the server's log, upload its whole NAR and then its
  NARInfo, or which the server or an upstream cache said it has, or whose error is in the report.
\<close>

theorem shared_server_serves:
  assumes "exec (daemon_step E rd hash (closure_task (nix_store_ops X path_str (\<lambda>q. nix_write_nar (H q) q)))
      (handle_task H (\<lambda>q. sub60_cache_ops (via_trace T q (S q)) c) args net_init)) ls (Up loop_init) = Some (Up s)"
    and "phase s = Finished" "p \<in> set (pushes (received (loop_labels ls)))"
    and "server_answers srv T" "handlers_sent T H S c args (fst ` set (handled (loop_labels ls)))"
    and "\<And>q. duplex_ok (H q)" "\<And>q. streaming_hash (H q) sha" "\<And>q. nonzero_part_sizes (S q)"
    and "\<And>q bs. mset (arrival (H q) bs) = mset bs"
  shows "case store_closure X path_str p of
      Inl e \<Rightarrow> (p, e) \<in> set (path_closure_errors (report s))
    | Inr ps \<Rightarrow> \<forall>q \<in> set ps. \<exists>q'. hash q' = hash q \<and>
        path_at_server srv T (H q') (S q') sha (upstream_caches args) (report s) q'"
  by (rule finished_at_server [OF assms])

theorem shared_server_serves_witness:
  "\<exists>s. exec shared_daemon (map Step daemon_labels) (Up loop_init) = Some (Up s) \<and> phase s = Finished \<and>
     server_log shared_trace = map snd shared_requests \<and>
     (\<forall>q \<in> {sample_store_path ''dep'', sample_store_path ''p''}. \<exists>q'. sample_path_hash q' = sample_path_hash q \<and>
        path_at_server shared_srv shared_trace daemon_env daemon_cloud (\<lambda>bs. bs) [''a'', ''b''] (report s) q')"
proof -
  obtain s where s: "exec shared_daemon (map Step daemon_labels) (Up loop_init) = Some (Up s)" "phase s = Finished"
    by (rule shared_run)
  have p: "sample_store_path ''p'' \<in> set (pushes (received (loop_labels (map Step daemon_labels))))"
    by (simp add: daemon_labels_def)
  have srv: "server_answers shared_srv shared_trace" "server_log shared_trace = map snd shared_requests"
    by (simp_all only: shared_trace_def server_answers_trace_of server_log_trace_of)
  have "handlers_sent shared_trace (\<lambda>q. daemon_env) (\<lambda>q. daemon_cloud) sample_cache daemon_args
      (fst ` set (handled (loop_labels (map Step daemon_labels))))"
    by (simp add: handlers_sent_def daemon_labels_def shared_path shared_dep shared_own)
  from shared_server_serves [OF s p srv(1) this sample_daemon_env] s srv(2) sample_tasks(1) show ?thesis
    by (simp add: closure_task_def daemon_args_def)
qed

end
