(* ===== verification/Unit_Tests.thy ===== *)
theory Unit_Tests
  imports Commands_Correct
begin

text \<open>
  The unit tests of \<open>src/protocol.rs\<close> and \<open>src/real_stop_progress_reporter.rs\<close>, with their
  helpers, on the model: each test is a proposition, and the tests pass for every implementation
  of store paths that reads and prints the paths in them. What the two helpers do in general is
  a round trip.
\<close>

section \<open>Helpers\<close>

text \<open>
  An in-memory \<open>Cursor\<close> takes every write whole, hands over what it holds, and is never pending,
  so a future on it is polled once. \<open>None\<close> is an \<open>unwrap\<close> that failed.
\<close>

fun feed_messages :: "('path, 'perr) wire_env \<Rightarrow> 'path message list \<Rightarrow> 'w sender \<Rightarrow> 'w sender option" where
  "feed_messages E [] sender = Some sender"
| "feed_messages E (msg # msgs) sender =
     (case feed E 1 msg sender of
        Some (Inr _, sender') \<Rightarrow> feed_messages E msgs sender'
      | _ \<Rightarrow> None)"

definition send_messages :: "('path, 'perr) wire_env \<Rightarrow> 'path message list \<Rightarrow> bytes option" where
  "send_messages E msgs =
     (case feed_messages E msgs (Sender_new (fresh_writer [] [])) of
        None \<Rightarrow> None
      | Some sender \<Rightarrow>
          (case await 1 (sender_poll_close sw_poll_write sw_poll_close) sender of
             Some (Inr _, sender') \<Rightarrow> Some (w_accepted (swriter sender'))
           | _ \<Rightarrow> None))"

definition cursor :: "bytes \<Rightarrow> script_reader" where
  "cursor input = \<lparr>r_script = [Chunk input], r_closed = True\<rparr>"

definition parse_messages :: "('path, 'perr) wire_env \<Rightarrow> bytes \<Rightarrow> ('path, 'perr) item list" where
  "parse_messages E input = receive_all E sr_poll_read (sr_weight (cursor input) + 1) (Receiver_new (cursor input))"

lemma send_messages_eq: "send_messages E ms = Some (encode E ms)"
proof -
  have feed: "feed_messages E ms s = Some (s\<lparr>sbuf := sbuf s @ encode E ms\<rparr>)" for s :: "script_writer sender"
    by (induction ms arbitrary: s) (simp_all add: feed_eq [where n = 0, simplified])
  let ?w = "fresh_writer [] []" let ?s = "Sender_new ?w\<lparr>sbuf := sbuf (Sender_new ?w) @ encode E ms\<rparr>"
  have "sw_healthy ?w" "sw_patience ?w < 1" "w_accepted ?w = []"
    by (simp_all add: fresh_writer_def sw_healthy_def sw_patience_def)
  moreover obtain s' where "await 1 (sender_poll_close sw_poll_write sw_poll_close) ?s = Some (Ok (), s')"
    "w_accepted (swriter s') = w_accepted ?w @ encode E ms"
    using swl.await_delivers [of "sender_poll_close sw_poll_write sw_poll_close" ?s 1]
      handed_over_buffered(1, 2) [where w = ?w and bs = "encode E ms"] handed_over_buffered(3) [where w = ?w] calculation
    by auto
  ultimately show ?thesis
    unfolding send_messages_def feed by simp
qed

lemma parse_messages_eq: "memchr_ok E \<Longrightarrow> parse_messages E input = decode E input"
  unfolding parse_messages_def
  by (subst sr.receive_all_decode) (auto simp: cursor_def sr_live_def sr_stream_def)

section \<open>The tests\<close>

text \<open>\<open>path(s)\<close> unwraps the parsed path, so a test fails (\<open>False\<close>) when it cannot be parsed.\<close>

definition with_path :: "('path, 'perr) wire_env \<Rightarrow> string \<Rightarrow> ('path \<Rightarrow> bool) \<Rightarrow> bool" where
  "with_path E s test = (case parse_path E s of Inl _ \<Rightarrow> False | Inr p \<Rightarrow> test p)"

definition aaa_hello :: string where
  "aaa_hello = ''/nix/store/aaaaaaaaaaaaaaaaaaaaaaaaaaaaaaaa-hello''"

definition aaa_foo :: string where
  "aaa_foo = ''/nix/store/aaaaaaaaaaaaaaaaaaaaaaaaaaaaaaaa-foo''"

definition bbb_bar :: string where
  "bbb_bar = ''/nix/store/bbbbbbbbbbbbbbbbbbbbbbbbbbbbbbbb-bar''"

definition send_single_store_path :: "('path, 'perr) wire_env \<Rightarrow> bool" where
  "send_single_store_path E \<longleftrightarrow>
     with_path E aaa_hello (\<lambda>p. send_messages E [PushStorePath p] = Some (as_bytes aaa_hello @ [10]))"

definition send_stop :: "('path, 'perr) wire_env \<Rightarrow> bool" where
  "send_stop E \<longleftrightarrow> send_messages E [StopDaemon] = Some [0]"

definition send_paths_then_stop :: "('path, 'perr) wire_env \<Rightarrow> bool" where
  "send_paths_then_stop E \<longleftrightarrow>
     with_path E aaa_foo (\<lambda>p. with_path E bbb_bar (\<lambda>q.
       send_messages E [PushStorePath p, PushStorePath q, StopDaemon] =
         Some (as_bytes aaa_foo @ [10] @ as_bytes bbb_bar @ [10, 0])))"

definition receive_single_store_path :: "('path, 'perr) wire_env \<Rightarrow> bool" where
  "receive_single_store_path E \<longleftrightarrow>
     (case parse_messages E (as_bytes aaa_hello @ [10]) of
        [Inr (PushStorePath p)] \<Rightarrow> display_path E p = aaa_hello
      | _ \<Rightarrow> False)"

definition receive_multiple_store_paths :: "('path, 'perr) wire_env \<Rightarrow> bool" where
  "receive_multiple_store_paths E \<longleftrightarrow>
     (case parse_messages E (as_bytes aaa_foo @ [10] @ as_bytes bbb_bar @ [10]) of
        [Inr (PushStorePath p), Inr (PushStorePath q)] \<Rightarrow> True
      | _ \<Rightarrow> False)"

definition receive_stop :: "('path, 'perr) wire_env \<Rightarrow> bool" where
  "receive_stop E \<longleftrightarrow> parse_messages E [0] = [Ok StopDaemon]"

definition receive_paths_then_stop :: "('path, 'perr) wire_env \<Rightarrow> bool" where
  "receive_paths_then_stop E \<longleftrightarrow>
     (case parse_messages E (as_bytes aaa_foo @ [10, 0]) of
        [Inr (PushStorePath p), Inr StopDaemon] \<Rightarrow> True
      | _ \<Rightarrow> False)"

definition receive_empty_input :: "('path, 'perr) wire_env \<Rightarrow> bool" where
  "receive_empty_input E \<longleftrightarrow> parse_messages E [] = []"

definition receive_invalid_store_path :: "('path, 'perr) wire_env \<Rightarrow> bool" where
  "receive_invalid_store_path E \<longleftrightarrow>
     (case parse_messages E (as_bytes ''not-a-store-path'' @ [10]) of
        [Inl (InvalidStorePath e)] \<Rightarrow> True
      | _ \<Rightarrow> False)"

definition formats_binary_byte_sizes :: bool where
  "formats_binary_byte_sizes \<longleftrightarrow>
     human_readable_byte_size 0 = ''0 B'' \<and> human_readable_byte_size 1023 = ''1023 B'' \<and>
     human_readable_byte_size 1024 = ''1.0 KiB'' \<and> human_readable_byte_size 1536 = ''1.5 KiB'' \<and>
     human_readable_byte_size 42690 = ''41.7 KiB'' \<and> human_readable_byte_size (1024 * 1024) = ''1.0 MiB''"

section \<open>They pass\<close>

definition plain_line :: "string \<Rightarrow> bool" where
  "plain_line s \<longleftrightarrow> utf8_valid (as_bytes s) \<and> STOP_SENTINEL \<notin> set (as_bytes s) \<and>
     PATH_SEPARATOR \<notin> set (as_bytes s) \<and> length s < RECEIVE_BUF_LEN"

lemma test_lines: "plain_line aaa_hello" "plain_line aaa_foo" "plain_line bbb_bar" "plain_line ''not-a-store-path''"
  by code_simp+

lemma plain_path_ok: "plain_line (display_path E p) \<Longrightarrow> parse_path E (display_path E p) = Ok p \<Longrightarrow> path_ok E p"
  by (simp add: plain_line_def path_ok_def Let_def)

text \<open>The paths of the tests are read and printed by the store path library.\<close>

definition reads_path :: "('path, 'perr) wire_env \<Rightarrow> string \<Rightarrow> bool" where
  "reads_path E s \<longleftrightarrow> with_path E s (\<lambda>p. display_path E p = s)"

lemma reads_path_ok:
  assumes "reads_path E s" "plain_line s"
  obtains p where "parse_path E s = Ok p" "display_path E p = s" "path_ok E p"
    "\<And>r. decode E (as_bytes s @ 10 # r) = Ok (PushStorePath p) # decode E r"
proof -
  obtain p where p: "parse_path E s = Ok p" "display_path E p = s"
    using assms(1) by (auto simp: reads_path_def with_path_def split: sum.splits)
  then have "path_ok E p"
    using assms(2) by (auto intro: plain_path_ok)
  with p decode_push [OF this] show thesis
    by (intro that [of p]) (simp_all add: PATH_SEPARATOR_def)
qed

text \<open>The tests that send.\<close>

lemma send_tests:
  assumes "reads_path E aaa_hello" "reads_path E aaa_foo" "reads_path E bbb_bar"
  shows "send_single_store_path E" "send_stop E" "send_paths_then_stop E"
  using assms
  by (auto simp: send_single_store_path_def send_stop_def send_paths_then_stop_def reads_path_def with_path_def
      send_messages_eq PATH_SEPARATOR_def STOP_SENTINEL_def split: sum.splits)

text \<open>The tests that receive.\<close>

lemma invalid_line:
  assumes "plain_line s" "s \<noteq> []" "parse_path E s = Err e"
  shows "decode E (as_bytes s @ [10]) = [Err (InvalidStorePath e)]"
proof -
  have "hd (as_bytes s @ [PATH_SEPARATOR]) \<noteq> STOP_SENTINEL"
    using assms(1, 2) by (cases s) (auto simp: plain_line_def)
  then have "decode_step E (as_bytes s @ [PATH_SEPARATOR]) = Some (line_item E (as_bytes s), [])"
    using assms(1) by (intro decode_step_line) (auto simp: plain_line_def)
  moreover have "line_item E (as_bytes s) = Err (InvalidStorePath e)"
    using assms(1, 3) by (simp add: line_item_def plain_line_def)
  ultimately show ?thesis
    by (simp add: decode_Some PATH_SEPARATOR_def)
qed

lemma receive_tests:
  assumes "memchr_ok E" "reads_path E aaa_hello" "reads_path E aaa_foo" "reads_path E bbb_bar"
    and "parse_path E ''not-a-store-path'' = Err e"
  shows "receive_single_store_path E" "receive_multiple_store_paths E" "receive_stop E" "receive_paths_then_stop E"
    "receive_empty_input E" "receive_invalid_store_path E"
proof -
  obtain hello where "display_path E hello = aaa_hello"
    "\<And>r. decode E (as_bytes aaa_hello @ 10 # r) = Ok (PushStorePath hello) # decode E r"
    by (rule reads_path_ok [OF assms(2) test_lines(1)], rule that)
  moreover obtain foo where "\<And>r. decode E (as_bytes aaa_foo @ 10 # r) = Ok (PushStorePath foo) # decode E r"
    by (rule reads_path_ok [OF assms(3) test_lines(2)], rule that)
  moreover obtain bar where "\<And>r. decode E (as_bytes bbb_bar @ 10 # r) = Ok (PushStorePath bar) # decode E r"
    by (rule reads_path_ok [OF assms(4) test_lines(3)], rule that)
  moreover have "decode E [0] = [Ok StopDaemon]"
    using decode_stop [of E "[]"] by (simp add: STOP_SENTINEL_def)
  moreover have "decode E (as_bytes ''not-a-store-path'' @ [10]) = [Err (InvalidStorePath e)]"
    by (rule invalid_line [OF test_lines(4) _ assms(5)]) simp
  ultimately show "receive_single_store_path E" "receive_multiple_store_paths E" "receive_stop E"
    "receive_paths_then_stop E" "receive_empty_input E" "receive_invalid_store_path E"
    unfolding receive_single_store_path_def receive_multiple_store_paths_def receive_stop_def
      receive_paths_then_stop_def receive_empty_input_def receive_invalid_store_path_def parse_messages_eq [OF assms(1)]
    by (simp_all only: append.simps list.case sum.case message.case receive_error.case decode_Nil)
qed

lemma size_tests: formats_binary_byte_sizes
  by code_simp

section \<open>Properties\<close>

text \<open>
  C14: The unit tests of the repository pass on the model, for every implementation of store paths
  that reads and prints the paths in them and rejects \<open>not-a-store-path\<close>. Beyond the tests, what
  is received is what was sent, up to and including the first stop, for any list of messages the
  protocol can carry: the paths print as UTF-8 text that parses back to them, of fewer than 1024
  bytes and without a newline or a NUL.
\<close>

theorem unit_tests_pass:
  assumes "memchr_ok E" "reads_path E aaa_hello" "reads_path E aaa_foo" "reads_path E bbb_bar"
    and "parse_path E ''not-a-store-path'' = Err e"
  shows "send_single_store_path E \<and> send_stop E \<and> send_paths_then_stop E \<and> receive_single_store_path E \<and>
    receive_multiple_store_paths E \<and> receive_stop E \<and> receive_paths_then_stop E \<and> receive_empty_input E \<and>
    receive_invalid_store_path E \<and> formats_binary_byte_sizes \<and>
    (\<forall>ms. list_all (message_ok E) ms \<longrightarrow>
       map_option (parse_messages E) (send_messages E ms) = Some (map Ok (upto_stop ms)))"
  using send_tests [OF assms(2-4)] receive_tests [OF assms] size_tests
  by (simp add: send_messages_eq parse_messages_eq [OF assms(1)] decode_encode_messages)

theorem unit_tests_pass_witness:
  "send_single_store_path sample_env \<and> receive_single_store_path sample_env \<and> receive_invalid_store_path sample_env \<and>
     map_option (parse_messages sample_env) (send_messages sample_env [PushStorePath ''/nix/store/a'', StopDaemon, StopDaemon]) =
       Some [Ok (PushStorePath ''/nix/store/a''), Ok StopDaemon]"
proof -
  have "reads_path sample_env aaa_hello" "reads_path sample_env aaa_foo" "reads_path sample_env bbb_bar"
    "parse_path sample_env ''not-a-store-path'' = Err ()"
    by code_simp+
  note tests = unit_tests_pass [OF memchr_ok_sample this]
  moreover have "list_all (message_ok sample_env) [PushStorePath ''/nix/store/a'', StopDaemon, StopDaemon]"
    by (simp add: path_ok_sample)
  ultimately have "map_option (parse_messages sample_env)
      (send_messages sample_env [PushStorePath ''/nix/store/a'', StopDaemon, StopDaemon]) =
    Some (map Ok (upto_stop [PushStorePath ''/nix/store/a'', StopDaemon, StopDaemon]))"
    by blast
  with tests show ?thesis by simp
qed

end
