(* ===== verification/Spec2Isabelle.thy ===== *)
theory Spec2Isabelle
  imports Shared_Server Unit_Tests
begin

text \<open>
  The sub60 cache action: a daemon that pushes Nix store paths, with everything they depend on,
  to a binary cache while a CI job runs.

  \<^bold>\<open>The program.\<close> \<open>cache-action run\<close> binds a Unix socket, opens the Nix store, connects to a
  cache and runs an event loop. \<open>cache-action push\<close> connects to the socket and writes store
  paths, one per line; \<open>cache-action stop\<close> writes a stop byte and prints what the daemon answers.
  In the daemon a task per connection decodes the bytes and sends events to the loop. For a
  pushed path the loop computes its closure and handles every path of it that it has not seen
  yet, at most 32 at a time: a path that neither the cache nor an upstream cache has is read from
  the store as a NAR, hashed and counted on the way into a pipe, uploaded in parts from the other
  end of the pipe, and then described by a NARInfo. After a stop the loop waits for the closures
  and paths it owes and reports to the stop client.

  \<^bold>\<open>The theories.\<close>
  \<^item> \<open>Prelude\<close>: machine types, results and polls, I/O errors, strings as bytes, decimal display
    and UTF-8 validation of the standard library. \<open>Transition\<close>: labelled transition systems
    given by a step function, with locales for invariants, budgets and forward simulation.
  \<^item> \<open>Async_Io\<close>: the traits \<open>AsyncRead\<close> and \<open>AsyncWrite\<close> as locales with the laws of their
    documentation, and scripted endpoints that realise every splitting, delay and failure.
  \<^item> \<open>Protocol\<close>, \<open>Protocol_Correct\<close> (\<open>src/protocol.rs\<close>): \<open>Sender\<close>, \<open>Receiver\<close>, \<open>StoreDir\<close>
    poll by poll. The specification is \<open>encode\<close> and \<open>decode\<close>; the sender conserves bytes, the
    receiver refines \<open>decode\<close>, reports the failure of a reader that fails after the items before
    it, and never indexes its buffer out of range.
  \<^item> \<open>Event_Loop\<close>, \<open>Event_Loop_Correct\<close> (\<open>run\<close> and \<open>handle_io\<close> of \<open>src/event_loop.rs\<close>): one
    label per branch of \<open>select!\<close>, so a run is any interleaving the runtime may choose. Every
    path of the closures is handled once, the bound of 32 holds, the report is exact, draining
    ends and never gets stuck, and the loop refines an abstract pool of outstanding work.
  \<^item> \<open>Try_Fill\<close> (\<open>src/async_read_ext.rs\<close>): the future that fills a buffer.
  \<^item> \<open>Sub60_Cache\<close>, \<open>Sub60_Correct\<close> (\<open>src/sub60_cache.rs\<close>): every request of the client. The
    server answers by any function of the requests sent so far. A successful upload sent the
    whole NAR in consecutive parts, each to its own URL, and completed it last.
  \<^item> \<open>Caches\<close> (\<open>src/noop_cache.rs\<close>, \<open>src/any_cache.rs\<close> and the trait \<open>Cache\<close> of
    \<open>src/context.rs\<close>): the trait as a record of operations, its contract as a locale that every
    cache interprets.
  \<^item> \<open>Handle_Path\<close>, \<open>Handle_Path_Correct\<close> (\<open>handle_store_path\<close> and what it calls in
    \<open>src/event_loop.rs\<close>): the race between the cache and the upstream caches, the pipe, the
    hashing writer, the NARInfo. What is reported as pushed was received by the server, whole.
  \<^item> \<open>Nix_Store\<close>, \<open>Nix_Store_Correct\<close> (\<open>src/nix_store.rs\<close>): the walk over the file system that
    writes a NAR, the writes into the pipe, closures and path infos. The NAR is well-formed and
    determines the tree.
  \<^item> \<open>Reporter\<close>, \<open>Reporter_Correct\<close> (\<open>src/real_stop_progress_reporter.rs\<close>): the text of the
    reports and the printing of sizes, floating point as exact integers.
  \<^item> \<open>Commands\<close>, \<open>Commands_Correct\<close> (\<open>src/run.rs\<close>, \<open>src/push.rs\<close>, \<open>src/stop.rs\<close>): the three
    subcommands, readiness, exit status, accepting connections.
  \<^item> \<open>Connections\<close>: many connections at once. The messages of the loop are an interleaving of what
    the accepted connections carry; a stop request of one may overtake the pushes of another.
  \<^item> \<open>Runtime\<close> (\<open>src/tokio.rs\<close>, \<open>src/context.rs\<close>, \<open>src/real_context.rs\<close>, \<open>src/lib.rs\<close>,
    \<open>src/main.rs\<close>): the runtime and join handles, the traits \<open>Nix\<close>, \<open>HttpClient\<close> and \<open>Context\<close>
    with their instances, the dispatch of the subcommands, the program.
  \<^item> \<open>Handlers\<close>: handling a path with the sub60 cache and the NAR writes of \<open>NixStore\<close> returns,
    and uploads the bytes of the tree on disk.
  \<^item> \<open>Daemon\<close>, \<open>Daemon_Correct\<close>: the event loop with the tasks it spawns, whose results are those
    that \<open>Nix_Store\<close> and \<open>Handle_Path\<close> compute, and which end the daemon when they panic, by
    unwinding the loop (development build) or by aborting (release build). A finished run served every push it received, down to the bytes at the server; after a
    stop request the daemon can always finish; an unusable upstream URL ends it.
  \<^item> \<open>Shared_Server\<close>: one server for all handlers, whose requests it sees interleaved in any order
    and answers by any function of all of them. What a handler sees is its own part of the trace;
    the promise of the daemon holds about the log of that server.
  \<^item> \<open>Unit_Tests\<close>: the unit tests of the repository, proved on the model.
  \<^item> This theory connects the clients: from the command line of \<open>push\<close> to the events of the loop
    and on to the server, and from the end of a run to the standard output of \<open>stop\<close>.

  \<^bold>\<open>Parameters.\<close> Code of other crates is an argument: printing and parsing of store paths and
  \<open>memchr\<close> (\<open>wire_env\<close>), URLs, bodies, the clock and the server (\<open>sub60_env\<close>), SHA-256, the
  pipe and the HTTP answers of upstream caches (\<open>handle_env\<close>), the Nix bindings (\<open>nixb_env\<close>),
  the NAR writer and the file system (\<open>nar_sink\<close>, \<open>fs_ops\<close>), sockets and files. What is
  needed of them is a named predicate (\<open>memchr_ok\<close>, \<open>path_ok\<close>, \<open>duplex_ok\<close>,
  \<open>streaming_hash\<close> and others) and every theorem that needs one has a closed instance. What is
  needed of a server is a predicate on its answers to the requests that the client makes
  (\<open>fresh_urls\<close>, \<open>accepts_all\<close>, \<open>offers_parts\<close>, \<open>issues_requested\<close>); parsers may fail on any other
  text. The NAR writer hands its buffers to \<open>AsyncWriteExt::write_all\<close>, which is written out
  (\<open>write_all_calls\<close>): the pipe may take a buffer in pieces, put the writer off, or fail.

  \<^bold>\<open>Bounds.\<close> Counters, sizes and part numbers are words of the width the code has. Loops that
  read from an endpoint end because the endpoint's weight decreases. \<open>upload_nar\<close> may run for
  ever, which is \<open>None\<close>, or wait for ever, which is \<open>Blocked\<close>: the former only if the server
  issues no usable URLs, the latter only for a stream that is open. Accepting connections may run
  for ever, which is \<open>None\<close> too. The walk over a
  directory tree needs fuel above the height of the tree. Polling a client's future needs more
  turns than its socket has pending answers. A turn of \<open>handle_io\<close> per unit of the reader's
  weight, and two more, are enough to read a connection to its end.

  \<^bold>\<open>Not modelled.\<close> The scheduler of the runtime: the schedule is the sequence of labels of a run.
  The derived argument parsers are \<open>clap\<close>, a parameter of \<open>cli_main\<close>. The build script, the
  JavaScript wrapper and the Nix packaging are left out. Dropping a future, which cancels the
  other half of \<open>select\<close> and \<open>try_join\<close>, is modelled by its effect on the result, not on requests
  already under way; what the theorems say of a server's log does not depend on these. The handlers of \<open>Daemon\<close> have a server each, any function of the requests of
  that handler; \<open>Shared_Server\<close> gives them one. Overflow of the report's counters wraps, as in a
  release build.
\<close>

section \<open>Clients and daemon\<close>

lemma decode_pushes:
  assumes "list_all (path_ok E) ps"
  shows "decode E (encode E (map PushStorePath ps)) = map (\<lambda>p. Ok (PushStorePath p)) ps"
proof -
  have "list_all (message_ok E) (map PushStorePath ps)" "upto_stop (map PushStorePath ps) = map PushStorePath ps"
    using assms by (induction ps) auto
  with decode_encode_messages [of E "map PushStorePath ps"] show ?thesis by simp
qed

text \<open>
  C8: What the user pushes reaches the event loop. On a socket that does not fail, the \<open>push\<close>
  subcommand ends with success, however the socket splits and delays the writes; and a daemon
  that reads what the socket accepted, split and delayed in any way, sends its event loop exactly
  the store paths of the command line, each once and in order.
\<close>

theorem push_reaches_event_loop:
  assumes "memchr_ok E" "list_all (path_ok E) (store_paths args)"
    and "unix_connect (push_socket args) = Ok (fresh_writer ws ys)"
    and "sw_healthy (fresh_writer ws ys)" "length ws + length ys < n"
  shows "\<exists>w. push E sw_poll_write sw_poll_close n unix_connect args =
       Some (\<lparr>p_stdout = [], p_stderr = [], p_exit = 0\<rparr>, Some w) \<and>
     (\<forall>r m wr. sr_stream r = w_accepted w \<and> sr_live r \<and> sr_weight r + 1 < m \<longrightarrow>
        handle_io_run E sr_poll_read wr m (handle_io_start r) =
          (map (\<lambda>p. Ok (EventPushStorePath p)) (store_paths args), IoReturned))"
proof -
  have "sw_patience (fresh_writer ws ys) < n" "w_accepted (fresh_writer ws ys) = []"
    using assms(5) by (simp_all add: sw_patience_def fresh_writer_def)
  then obtain w where w: "push E sw_poll_write sw_poll_close n unix_connect args =
      Some (\<lparr>p_stdout = [], p_stderr = [], p_exit = 0\<rparr>, Some w)"
    "w_accepted w = encode E (map PushStorePath (store_paths args))"
    using swl.push_delivers [where unix_connect = unix_connect and args = args and E = E, OF assms(3,4)] by auto
  have ev: "handle_io_run E sr_poll_read wr m (handle_io_start r) =
      (map (\<lambda>p. Ok (EventPushStorePath p)) (store_paths args), IoReturned)"
    if "sr_stream r = w_accepted w" "sr_live r" "sr_weight r + 1 < m" for r m wr
    using handle_io_sends_decoded [OF assms(1) that(2,3)] that(1) w(2) decode_pushes [OF assms(2)]
    by (simp add: comp_def)
  show ?thesis
    by (intro exI [of _ w] conjI allI impI; (elim conjE)?; (rule w(1) ev; assumption?))
qed

theorem push_reaches_event_loop_witness:
  "\<exists>w. push sample_env sw_poll_write sw_poll_close 5
       (\<lambda>p. Ok (fresh_writer [Accept 3, WStall, Accept 4] [Pending]))
       \<lparr>push_socket = ''/tmp/s'', store_paths = [''/nix/store/a'', ''/nix/store/a'']\<rparr> =
       Some (\<lparr>p_stdout = [], p_stderr = [], p_exit = 0\<rparr>, Some w) \<and>
     handle_io_run sample_env sr_poll_read () 60
       (handle_io_start \<lparr>r_script = [RStall, Chunk (w_accepted w)], r_closed = True\<rparr>) =
       ([Ok (EventPushStorePath ''/nix/store/a''), Ok (EventPushStorePath ''/nix/store/a'')], IoReturned)"
proof -
  let ?args = "\<lparr>push_socket = ''/tmp/s'', store_paths = [''/nix/store/a'', ''/nix/store/a'']\<rparr>"
  let ?w = "fresh_writer [Accept 3, WStall, Accept 4] [Pending]"
  let ?run = "push sample_env sw_poll_write sw_poll_close 5 (\<lambda>p. Ok ?w) ?args"
  have len: "map_option (\<lambda>(_, w). map_option (\<lambda>w. length (w_accepted w)) w) ?run = Some (Some 26)"
    by code_simp
  have "\<exists>w. ?run = Some (\<lparr>p_stdout = [], p_stderr = [], p_exit = 0\<rparr>, Some w) \<and>
      (\<forall>r m (wr :: unit). sr_stream r = w_accepted w \<and> sr_live r \<and> sr_weight r + 1 < m \<longrightarrow>
        handle_io_run sample_env sr_poll_read wr m (handle_io_start r) =
          (map (\<lambda>p. Ok (EventPushStorePath p)) (store_paths ?args), IoReturned))"
    by (rule push_reaches_event_loop [OF memchr_ok_sample _ refl])
      (simp_all add: path_ok_sample sw_healthy_def fresh_writer_def)
  then obtain w where w: "?run = Some (\<lparr>p_stdout = [], p_stderr = [], p_exit = 0\<rparr>, Some w)"
    "\<And>r m. sr_stream r = w_accepted w \<Longrightarrow> sr_live r \<Longrightarrow> sr_weight r + 1 < m \<Longrightarrow>
       handle_io_run sample_env sr_poll_read () m (handle_io_start r) =
         (map (\<lambda>p. Ok (EventPushStorePath p)) (store_paths ?args), IoReturned)"
    by auto
  let ?r = "\<lparr>r_script = [RStall, Chunk (w_accepted w)], r_closed = True\<rparr>"
  have "sr_stream ?r = w_accepted w" "sr_live ?r" "sr_weight ?r + 1 < 60"
    using w(1) len by (simp_all add: sr_stream_def sr_live_def sr_weight_def)
  with w(1) w(2) [of ?r 60] show ?thesis by auto
qed

text \<open>
  C13: The \<open>stop\<close> subcommand stops the daemon and prints its report. On a socket that does not
  fail it asks the daemon to stop, so that the connection sends one stop event to the event loop;
  and if the loop finishes and the socket carries over what the progress reporter wrote, the user
  sees how many paths were left when the daemon stopped taking work, one line per path handled
  since then, in order, and the final report, and the exit status is 0.
\<close>

theorem stop_prints_report:
  assumes "memchr_ok E"
    and "unix_connect (stop_socket args) = Ok (rh, fresh_writer ws ys)"
    and "sw_healthy (fresh_writer ws ys)" "length ws + length ys < n"
    and "exec (loop_step E rd hash) ls loop_init = Some s" "phase s = Finished"
    and "takes_all W out" "out w0 = []"
    and "copy rh = (out (spr_writer (fold (reporter_call W sp ce he) (reporter s) (reporter_new w0))), Ok len)"
  shows "\<exists>w ls1 ls2. ls = ls1 @ Break # ls2 \<and>
     stop E sw_poll_write sw_poll_flush n unix_connect copy args =
       Some (\<lparr>p_stdout = as_bytes (stop_report_text sp ce he (handled ls2) (report s)), p_stderr = [], p_exit = 0\<rparr>,
         Some w) \<and>
     (\<forall>r m wr. sr_stream r = w_accepted w \<and> sr_live r \<and> sr_weight r + 1 < m \<longrightarrow>
        handle_io_run E sr_poll_read wr m (handle_io_start r) = ([Ok (EventStop wr)], IoReturned))"
proof -
  obtain ls1 ls2 where ls: "ls = ls1 @ Break # ls2"
    "out (spr_writer (fold (reporter_call W sp ce he) (reporter s) (reporter_new w0))) =
       as_bytes (stop_report_text sp ce he (handled ls2) (report s))"
    using drain_text [OF assms(5-7), of sp ce he w0] assms(8) by auto
  have "sw_patience (fresh_writer ws ys) < n" "w_accepted (fresh_writer ws ys) = []"
    using assms(4) by (simp_all add: sw_patience_def fresh_writer_def)
  then obtain w where w: "stop E sw_poll_write sw_poll_flush n unix_connect copy args =
      Some (\<lparr>p_stdout = as_bytes (stop_report_text sp ce he (handled ls2) (report s)), p_stderr = [], p_exit = 0\<rparr>, Some w)"
    "w_accepted w = [STOP_SENTINEL]"
    using swl.stop_delivers [where unix_connect = unix_connect and args = args and copy = copy and E = E,
        OF assms(2,3) _ assms(9)] ls(2) by auto
  have ev: "handle_io_run E sr_poll_read wr m (handle_io_start r) = ([Ok (EventStop wr)], IoReturned)"
    if "sr_stream r = w_accepted w" "sr_live r" "sr_weight r + 1 < m" for r m wr
    using handle_io_sends_decoded [OF assms(1) that(2,3)] that(1) w(2) decode_stop [of E "[]"] by simp
  show ?thesis
    by (intro exI [of _ w] exI [of _ ls1] exI [of _ ls2] conjI allI impI; (elim conjE)?;
        (rule w(1) ls(1) ev; assumption?))
qed

theorem stop_prints_report_witness:
  "\<exists>s w ls1 ls2. exec sample_step sample_labels loop_init = Some s \<and> sample_labels = ls1 @ Break # ls2 \<and>
     stop sample_env sw_poll_write sw_poll_flush 3 (\<lambda>p. Ok ((), fresh_writer [WStall] [Pending]))
       (\<lambda>rh. (spr_writer (fold (reporter_call list_writer (\<lambda>p. p) (\<lambda>u. ErrorChain [] None)
          (\<lambda>u. ErrorChain [] None)) (reporter s) (reporter_new [])), Ok 0))
       \<lparr>stop_socket = ''/tmp/s''\<rparr> =
       Some (\<lparr>p_stdout = as_bytes (stop_report_text (\<lambda>p. p) (\<lambda>u. ErrorChain [] None) (\<lambda>u. ErrorChain [] None)
          (handled ls2) (report s)), p_stderr = [], p_exit = 0\<rparr>, Some w)"
proof -
  have W: "takes_all list_writer (\<lambda>w. w)"
    by (simp add: takes_all_def list_writer_def)
  have w: "sw_healthy (fresh_writer [WStall] [Pending])" "length [WStall] + length [Pending] < (3 :: nat)"
    by (simp_all add: sw_healthy_def fresh_writer_def)
  obtain s where s: "exec sample_step sample_labels loop_init = Some s" "phase s = Finished"
    by (rule sample_run)
  show ?thesis
    using stop_prints_report [where unix_connect = "\<lambda>p. Ok ((), fresh_writer [WStall] [Pending])" and
        args = "\<lparr>stop_socket = ''/tmp/s''\<rparr>" and rh = "()" and out = "\<lambda>w. w" and sp = "\<lambda>p. p" and
        ce = "\<lambda>u. ErrorChain [] None" and he = "\<lambda>u. ErrorChain [] None" and ?w0.0 = "[]" and
        copy = "\<lambda>rh. (spr_writer (fold (reporter_call list_writer (\<lambda>p. p) (\<lambda>u. ErrorChain [] None)
          (\<lambda>u. ErrorChain [] None)) (reporter s) (reporter_new [])), Ok 0)",
        OF memchr_ok_sample refl w s W refl refl]
    by (elim exE conjE) (intro exI conjI; (rule s(1) | assumption))
qed

section \<open>From the command line to the server\<close>

lemma in_pushes: "Ok (EventPushStorePath p) \<in> set ms \<Longrightarrow> p \<in> set (pushes ms)"
  by (induction ms rule: pushes.induct) auto

text \<open>A connection that was read to its end, all of whose messages were received.\<close>

lemma connection_received:
  assumes "memchr_ok E" "exec (loop_step E sr_poll_read hash) ls loop_init = Some s" "messages s = []"
    and "\<forall>(r, w) \<in> set (accepted_ios ls). sr_live r"
    and "i < length (accepted_ios ls)" "accepted_ios ls ! i = (r, wr)" "fst (io_tasks s ! i) = IoReturned"
  shows "set (wire_events E sr_stream (r, wr)) \<subseteq> set (received ls)"
proof -
  obtain sents where inv: "conn_inv E sr_stream sr_live (accepted_ios ls) sents (received ls) s"
    using sr.conn_inv_run [OF assms(1, 2, 4)] by blast
  then have "sents ! i = wire_events E sr_stream (r, wr)" "i < length sents" "merges sents (received ls)"
    using assms(3, 5-7) by (fastforce simp: conn_inv_def)+
  then have "subseq (wire_events E sr_stream (r, wr)) (received ls)"
    using merges_subseq [of sents "received ls" "sents ! i"] by (metis nth_mem)
  then show ?thesis
    by (auto dest: list_emb_set)
qed

text \<open>
  C1: From the command line to the server. The paths given to a \<open>push\<close> on a socket that does not
  fail are served by a daemon that finishes: for every one of them the error of its closure is in
  the report, or every path of its closure (up to its hash) is at the shared server, or an
  upstream cache has it, or its error is in the report. This needs that the protocol can carry
  the paths, that the task of the connection returned (so that it was read to its end), that no
  message was left in the channel when the loop ended, and that the clients of all accepted
  connections close them without a failure. Without the third condition a stop can overtake the
  push (\<open>stop_overtakes_push\<close>).
\<close>

theorem pushed_command_served:
  assumes "push E sw_poll_write sw_poll_close n unix_connect pargs = Some (e, Some w)"
    and "memchr_ok E" "list_all (path_ok E) (store_paths pargs)"
    and "unix_connect (push_socket pargs) = Ok (fresh_writer ws ys)"
    and "sw_healthy (fresh_writer ws ys)" "length ws + length ys < n"
    and "exec (daemon_step E sr_poll_read hash (closure_task (nix_store_ops X path_str (\<lambda>q. nix_write_nar (H q) q)))
      (handle_task H (\<lambda>q. sub60_cache_ops (via_trace T q (S q)) c) args net_init)) ls (Up loop_init) = Some (Up s)"
    and "phase s = Finished" "messages s = []" "\<forall>(r, w) \<in> set (accepted_ios (loop_labels ls)). sr_live r"
    and "i < length (accepted_ios (loop_labels ls))" "accepted_ios (loop_labels ls) ! i = (r, wr)"
    and "sr_stream r = w_accepted w" "fst (io_tasks s ! i) = IoReturned"
    and "server_answers srv T" "handlers_sent T H S c args (fst ` set (handled (loop_labels ls)))"
    and "\<And>q. duplex_ok (H q)" "\<And>q. streaming_hash (H q) sha" "\<And>q. nonzero_part_sizes (S q)"
    and "\<And>q bs. mset (arrival (H q) bs) = mset bs"
  shows "p_exit e = 0 \<and>
    (\<forall>p \<in> set (store_paths pargs).
       case store_closure X path_str p of
         Inl err \<Rightarrow> (p, err) \<in> set (path_closure_errors (report s))
       | Inr ps \<Rightarrow> \<forall>q \<in> set ps. \<exists>q'. hash q' = hash q \<and>
           path_at_server srv T (H q') (S q') sha (upstream_caches args) (report s) q')"
proof -
  have "sw_patience (fresh_writer ws ys) < n" "w_accepted (fresh_writer ws ys) = []"
    using assms(6) by (simp_all add: sw_patience_def fresh_writer_def)
  then have push: "p_exit e = 0" "w_accepted w = encode E (map PushStorePath (store_paths pargs))"
    using swl.push_delivers [where unix_connect = unix_connect and args = pargs and E = E, OF assms(4, 5), of n] assms(1)
    by auto
  have run: "exec (loop_step E sr_poll_read hash) (loop_labels ls) loop_init = Some s"
    using assms(7) by (auto simp: daemon_run)
  have events: "wire_events E sr_stream (r, wr) = map (\<lambda>p. Ok (EventPushStorePath p)) (store_paths pargs)"
    using decode_pushes [OF assms(3)] push(2) assms(13) by (simp add: wire_events_def)
  have "p \<in> set (pushes (received (loop_labels ls)))" if "p \<in> set (store_paths pargs)" for p
    using connection_received [OF assms(2) run assms(9-12, 14)] that unfolding events by (intro in_pushes) auto
  with finished_at_server [OF assms(7, 8) _ assms(15-20)] push(1) show ?thesis
    by blast
qed

definition push_reader :: script_reader where
  "push_reader = \<lparr>r_script = [Chunk (as_bytes ''p'' @ [10])], r_closed = True\<rparr>"

definition push_labels ::
  "(sample_path, unit, string, ((string, string) cache_request_error, string, io_error) handle_path_error, script_reader, unit)
     label list" where
  "push_labels =
     [Accepted push_reader (), Accepted stop_reader (), IoTurn 0, IoTurn 0, IoTurn 1,
      Received (Ok (EventPushStorePath (sample_store_path ''p''))), Received (Ok (EventStop ())),
      ClosureDone (sample_store_path ''p'') (Ok [sample_store_path ''dep'', sample_store_path ''p'']), Break,
      PathHandled (sample_store_path ''p'') (Ok (Some 7)), PathHandled (sample_store_path ''dep'') (Ok None), Finish]"

definition sample_push :: "sample_path push_args" where
  "sample_push = \<lparr>push_socket = ''/run/s'', store_paths = [sample_store_path ''p'']\<rparr>"

lemma push_labels_done:
  "list_all (task_done sample_daemon_closure (handle_task (\<lambda>q. daemon_env)
     (\<lambda>q. sub60_cache_ops (shared_cloud q) sample_cache) daemon_args net_init)) push_labels"
  by (simp add: push_labels_def sample_tasks(1) handle_task_def shared_path shared_dep)

lemma push_loop_run:
  "map_option (\<lambda>s. (phase s, messages s, fst (io_tasks s ! 0)))
     (exec (loop_step daemon_wire sr_poll_read sample_path_hash) push_labels loop_init) = Some (Finished, [], IoReturned)"
  by code_simp

theorem pushed_command_served_witness:
  "\<exists>s w. push daemon_wire sw_poll_write sw_poll_close 1 (\<lambda>path. Ok (fresh_writer [] [])) sample_push =
       Some (\<lparr>p_stdout = [], p_stderr = [], p_exit = 0\<rparr>, Some w) \<and>
     exec shared_daemon (map Step push_labels) (Up loop_init) = Some (Up s) \<and>
     (\<forall>q \<in> {sample_store_path ''dep'', sample_store_path ''p''}. \<exists>q'. sample_path_hash q' = sample_path_hash q \<and>
        path_at_server shared_srv shared_trace daemon_env daemon_cloud (\<lambda>bs. bs) [''a'', ''b''] (report s) q')"
proof -
  have "map_option (apsnd (map_option w_accepted))
      (push daemon_wire sw_poll_write sw_poll_close 1 (\<lambda>path. Ok (fresh_writer [] [])) sample_push) =
    Some (\<lparr>p_stdout = [], p_stderr = [], p_exit = 0\<rparr>, Some (as_bytes ''p'' @ [10]))"
    by code_simp
  then obtain w where w: "push daemon_wire sw_poll_write sw_poll_close 1 (\<lambda>path. Ok (fresh_writer [] [])) sample_push =
      Some (\<lparr>p_stdout = [], p_stderr = [], p_exit = 0\<rparr>, Some w)" "w_accepted w = as_bytes ''p'' @ [10]"
    by auto
  obtain s where s: "exec (loop_step daemon_wire sr_poll_read sample_path_hash) push_labels loop_init = Some s"
    "phase s = Finished" "messages s = []" "fst (io_tasks s ! 0) = IoReturned"
    using push_loop_run by auto
  then have run: "exec shared_daemon (map Step push_labels) (Up loop_init) = Some (Up s)"
    using push_labels_done by (auto simp: daemon_run)
  have wire: "memchr_ok daemon_wire"
    using memchr_ok_sample by (simp add: memchr_ok_def daemon_wire_def)
  have paths: "list_all (path_ok daemon_wire) (store_paths sample_push)"
    by code_simp
  have ios: "accepted_ios push_labels = [(push_reader, ()), (stop_reader, ())]"
    by (simp add: push_labels_def)
  have srv: "server_answers shared_srv shared_trace"
    by (simp only: shared_trace_def server_answers_trace_of)
  have sent: "handlers_sent shared_trace (\<lambda>q. daemon_env) (\<lambda>q. daemon_cloud) sample_cache daemon_args
      (fst ` set (handled (loop_labels (map Step push_labels))))"
    by (simp add: handlers_sent_def push_labels_def shared_path shared_dep shared_own)
  have live: "\<forall>(r, w) \<in> set (accepted_ios (loop_labels (map Step push_labels))). sr_live r"
    and stream: "sr_stream push_reader = w_accepted w"
    by (simp_all add: ios w(2) push_reader_def stop_reader_def sr_live_def sr_stream_def)
  have "p_exit \<lparr>p_stdout = [], p_stderr = [], p_exit = 0\<rparr> = 0 \<and>
    (\<forall>p \<in> set (store_paths sample_push).
       case store_closure sample_nixb sample_path_str p of
         Inl err \<Rightarrow> (p, err) \<in> set (path_closure_errors (report s))
       | Inr ps \<Rightarrow> \<forall>q \<in> set ps. \<exists>q'. sample_path_hash q' = sample_path_hash q \<and>
           path_at_server shared_srv shared_trace daemon_env daemon_cloud (\<lambda>bs. bs) (upstream_caches daemon_args) (report s) q')"
    by (rule pushed_command_served [where i = 0 and ws = "[]" and ys = "[]" and r = push_reader and wr = "()",
          OF w(1) wire paths _ _ _ run s(2, 3) live _ _ stream s(4) srv sent sample_daemon_env])
      (simp_all add: ios fresh_writer_def sw_healthy_def)
  moreover have "store_closure sample_nixb sample_path_str (sample_store_path ''p'') =
      Ok [sample_store_path ''dep'', sample_store_path ''p'']" "upstream_caches daemon_args = [''a'', ''b'']"
    using sample_tasks(1) by (simp_all add: closure_task_def daemon_args_def)
  ultimately show ?thesis
    using w(1) run by (intro exI [of _ s] exI [of _ w]) (simp add: sample_push_def)
qed

end
